theory Spec2Isabelle
  imports Main "HOL-Library.Multiset"
begin

section \<open>CSV_Combine: the Flask application of app.py\<close>

text \<open>
  The application keeps uploaded CSV files in the folder \<open>uploads\<close>, lists them, removes
  them one at a time, and combines them into one download, after which the originals are
  deleted. The four routes (\<open>index\<close>, \<open>upload_files\<close>, \<open>remove_file\<close>, \<open>combine_csv\<close>)
  are modelled as functions from the file system before the request to the response, the
  messages flashed to the user and the file system after the request. Logging is left out.

  Python \<open>str\<close> and \<open>bytes\<close> are both modelled as \<open>string\<close> (a list of 8-bit characters).
\<close>

subsection \<open>Configuration (app.py lines 12--13, 35)\<close>

type_synonym bytes = string
type_synonym path = string

definition UPLOAD_FOLDER :: string where
  "UPLOAD_FOLDER = ''uploads''"

definition ALLOWED_EXTENSIONS :: "string list" where
  "ALLOWED_EXTENSIONS = [''csv'']"


subsection \<open>String helpers of Python used by the application\<close>

definition lower_char :: "char \<Rightarrow> char" where
  \<comment> \<open>\<open>str.lower\<close> on one character; only \<open>A\<close>..\<open>Z\<close> change in the ASCII range.\<close>
  "lower_char c =
     (let n = (of_char c :: nat) in if 65 \<le> n \<and> n \<le> 90 then char_of (n + 32) else c)"

definition lower :: "string \<Rightarrow> string" where
  "lower s = map lower_char s"

definition rsplit1_last :: "char \<Rightarrow> string \<Rightarrow> string" where
  \<comment> \<open>\<open>s.rsplit(sep, 1)[1]\<close> for a string that contains \<open>sep\<close>: what follows the last \<open>sep\<close>.\<close>
  "rsplit1_last sep s = rev (takeWhile (\<lambda>c. c \<noteq> sep) (rev s))"

definition allowed_file :: "string \<Rightarrow> bool" where
  \<comment> \<open>app.py lines 37--38.\<close>
  "allowed_file filename \<longleftrightarrow>
     CHR ''.'' \<in> set filename \<and>
     lower (rsplit1_last CHR ''.'' filename) \<in> set ALLOWED_EXTENSIONS"

definition isspace :: "char \<Rightarrow> bool" where
  \<comment> \<open>\<open>str.isspace\<close> on ASCII: tab, LF, VT, FF, CR, the separators 0x1c..0x1f, and space.\<close>
  "isspace c =
     (let n = (of_char c :: nat) in (9 \<le> n \<and> n \<le> 13) \<or> (28 \<le> n \<and> n \<le> 32))"

fun split_ws :: "string \<Rightarrow> string \<Rightarrow> string list" where
  \<comment> \<open>\<open>s.split()\<close>: the maximal runs of non-space characters; \<open>cur\<close> is the run being read.\<close>
  "split_ws cur [] = (if cur = [] then [] else [cur])"
| "split_ws cur (c # cs) =
     (if isspace c then (if cur = [] then split_ws [] cs else cur # split_ws [] cs)
      else split_ws (cur @ [c]) cs)"

fun str_join :: "string \<Rightarrow> string list \<Rightarrow> string" where
  \<comment> \<open>\<open>sep.join(parts)\<close>.\<close>
  "str_join sep [] = []"
| "str_join sep [x] = x"
| "str_join sep (x # y # ys) = x @ sep @ str_join sep (y # ys)"

definition str_strip :: "string \<Rightarrow> string \<Rightarrow> string" where
  \<comment> \<open>\<open>s.strip(chars)\<close>: drops leading and trailing characters that occur in \<open>chars\<close>.\<close>
  "str_strip chars s =
     rev (dropWhile (\<lambda>c. c \<in> set chars) (rev (dropWhile (\<lambda>c. c \<in> set chars) s)))"

subsection \<open>\<open>werkzeug.utils.secure_filename\<close>\<close>

definition safe_char :: "char \<Rightarrow> bool" where
  \<comment> \<open>The characters kept by \<open>_filename_ascii_strip_re = [^A-Za-z0-9_.-]\<close>.\<close>
  "safe_char c =
     (let n = (of_char c :: nat) in
        (65 \<le> n \<and> n \<le> 90) \<or> (97 \<le> n \<and> n \<le> 122) \<or> (48 \<le> n \<and> n \<le> 57) \<or>
        c = CHR ''_'' \<or> c = CHR ''.'' \<or> c = CHR ''-'')"

definition secure_filename :: "(string \<Rightarrow> string) \<Rightarrow> string \<Rightarrow> string" where
  \<comment> \<open>The library function called at app.py lines 67 and 114, on a POSIX host
      (\<open>os.sep = '/'\<close>, no \<open>os.path.altsep\<close>, no reserved device names). The Unicode
      normalisation \<open>unicodedata.normalize("NFKD", _)\<close> is the parameter \<open>nfkd\<close>.\<close>
  "secure_filename nfkd filename =
     (let filename = nfkd filename;
          filename = filter (\<lambda>c. (of_char c :: nat) < 128) filename;
          filename = map (\<lambda>c. if c = CHR ''/'' then CHR '' '' else c) filename;
          filename = str_join ''_'' (split_ws [] filename);
          filename = filter safe_char filename
      in str_strip ''._'' filename)"

subsection \<open>The file system\<close>

text \<open>
  A file system is an association list from paths to contents. Its order is the order in
  which \<open>os.listdir\<close> reports the entries, which the operating system chooses. A path is
  the literal string the program passes to the operating system; the folder \<open>uploads\<close>
  itself exists (lines 25--32 create it at start-up) and is a directory, not a file.
  Failures of the operating system are inputs of the model: for each primitive, \<open>faults\<close>
  says whether it raises and with which text.
\<close>

type_synonym filesystem = "(path \<times> bytes) list"

record faults =
  listdir_raises :: "string option"
  open_raises :: "path \<Rightarrow> string option"
  save_raises :: "path \<Rightarrow> string option"
  remove_raises :: "path \<Rightarrow> string option"

definition no_faults :: faults where
  "no_faults = \<lparr>listdir_raises = None, open_raises = (\<lambda>_. None),
                 save_raises = (\<lambda>_. None), remove_raises = (\<lambda>_. None)\<rparr>"

definition os_path_join :: "string \<Rightarrow> string \<Rightarrow> path" where
  \<comment> \<open>\<open>os.path.join(a, b)\<close> for a non-empty \<open>a\<close> without trailing slash: an absolute
      \<open>b\<close> replaces \<open>a\<close>.\<close>
  "os_path_join a b = (if b \<noteq> [] \<and> hd b = CHR ''/'' then b else a @ ''/'' @ b)"

definition basename :: "path \<Rightarrow> string" where
  \<comment> \<open>\<open>os.path.basename\<close>: what follows the last slash.\<close>
  "basename p = rev (takeWhile (\<lambda>c. c \<noteq> CHR ''/'') (rev p))"

definition plain_name :: "string \<Rightarrow> bool" where
  \<comment> \<open>A single path component that names an entry of a directory.\<close>
  "plain_name n \<longleftrightarrow> n \<noteq> [] \<and> CHR ''/'' \<notin> set n \<and> n \<noteq> ''.'' \<and> n \<noteq> ''..''"

definition entry_name :: "path \<Rightarrow> string option" where
  \<comment> \<open>The name under which \<open>os.listdir(UPLOAD_FOLDER)\<close> reports a path, if the path is
      an entry of that folder.\<close>
  "entry_name p =
     (let pre = UPLOAD_FOLDER @ ''/''; n = drop (length pre) p
      in if take (length pre) p = pre \<and> plain_name n then Some n else None)"

definition is_upload_dir :: "path \<Rightarrow> bool" where
  "is_upload_dir p \<longleftrightarrow> p = UPLOAD_FOLDER \<or> p = UPLOAD_FOLDER @ ''/''"

definition listed_names :: "filesystem \<Rightarrow> string list" where
  \<comment> \<open>The entries of the folder, in the order of the file system.\<close>
  "listed_names fs = List.map_filter entry_name (map fst fs)"

definition os_listdir :: "faults \<Rightarrow> filesystem \<Rightarrow> string + string list" where
  \<comment> \<open>\<open>os.listdir(app.config['UPLOAD_FOLDER'])\<close>.\<close>
  "os_listdir io fs =
     (case listdir_raises io of
        Some e \<Rightarrow> Inl e
      | None \<Rightarrow> Inr (listed_names fs))"

definition os_path_exists :: "filesystem \<Rightarrow> path \<Rightarrow> bool" where
  "os_path_exists fs p \<longleftrightarrow> is_upload_dir p \<or> p \<in> fst ` set fs"

definition read_bytes :: "faults \<Rightarrow> filesystem \<Rightarrow> path \<Rightarrow> string + bytes" where
  \<comment> \<open>\<open>with open(p, 'rb') as f: f.read()\<close>.\<close>
  "read_bytes io fs p =
     (case open_raises io p of
        Some e \<Rightarrow> Inl e
      | None \<Rightarrow>
          if is_upload_dir p then Inl ''Is a directory''
          else (case map_of fs p of
                  None \<Rightarrow> Inl ''No such file or directory''
                | Some content \<Rightarrow> Inr content))"

definition os_remove :: "faults \<Rightarrow> filesystem \<Rightarrow> path \<Rightarrow> string + filesystem" where
  "os_remove io fs p =
     (case remove_raises io p of
        Some e \<Rightarrow> Inl e
      | None \<Rightarrow>
          if is_upload_dir p then Inl ''Is a directory''
          else if p \<in> fst ` set fs then Inr (filter (\<lambda>kv. fst kv \<noteq> p) fs)
          else Inl ''No such file or directory'')"



subsection \<open>The pandas calls\<close>

text \<open>
  A data frame is its column index and its rows. A cell is a Python string or the
  missing-value marker that pandas writes as \<open>NaN\<close>. Parsing and serialisation are
  library code and stay parameters of the model:
  \<^item> \<open>read_csv pd opts b\<close> is \<open>pd.read_csv(BytesIO(b), dtype=..., keep_default_na=...,
    encoding=...)\<close> with the keyword arguments \<open>opts\<close>, and \<open>Inl\<close> the text of the
    exception it raises;
  \<^item> \<open>to_csv pd df\<close> is the text that \<open>df.to_csv(output, index=False, encoding='utf-8')\<close>
    writes, encoded as UTF-8 (lines 189--191).
\<close>

datatype cell = Str string | NaN

record dataframe =
  columns :: "string list"
  rows :: "cell list list"

record read_options =
  dtype_str :: bool          \<comment> \<open>\<open>dtype=str\<close>: no type inference, every field stays text\<close>
  keep_default_na :: bool    \<comment> \<open>whether the default markers (the empty field, \<open>NA\<close>, ...) read as \<open>NaN\<close>\<close>
  encoding :: string

record pandas =
  read_csv :: "read_options \<Rightarrow> bytes \<Rightarrow> string + dataframe"
  to_csv :: "dataframe \<Rightarrow> bytes"

definition csv_options :: read_options where
  \<comment> \<open>The keyword arguments of line 165.\<close>
  "csv_options = \<lparr>dtype_str = True, keep_default_na = False, encoding = ''utf-8''\<rparr>"

definition df_empty :: "dataframe \<Rightarrow> bool" where
  \<comment> \<open>\<open>DataFrame.empty\<close>: some axis has length 0.\<close>
  "df_empty df \<longleftrightarrow> rows df = [] \<or> columns df = []"

definition union_columns :: "dataframe list \<Rightarrow> string list" where
  \<comment> \<open>The union of the column indexes, each name at its first occurrence.\<close>
  "union_columns dfs = rev (remdups (rev (concat (map columns dfs))))"

definition reindex_row :: "string list \<Rightarrow> string list \<Rightarrow> cell list \<Rightarrow> cell list" where
  \<comment> \<open>A row laid out under new columns; a column the frame lacks is filled with \<open>NaN\<close>.\<close>
  "reindex_row new old r =
     map (\<lambda>c. case map_of (zip old r) c of Some v \<Rightarrow> v | None \<Rightarrow> NaN) new"

definition pd_concat :: "dataframe list \<Rightarrow> string + dataframe" where
  \<comment> \<open>\<open>pd.concat(dfs, ignore_index=True)\<close>: the frames stacked in list order. Frames with
      one column index are stacked as they are; otherwise every frame is laid out under
      the union of the indexes. An empty list raises.\<close>
  "pd_concat dfs =
     (case dfs of
        [] \<Rightarrow> Inl ''No objects to concatenate''
      | df # _ \<Rightarrow>
          if \<forall>d \<in> set dfs. columns d = columns df
          then Inr \<lparr>columns = columns df, rows = concat (map rows dfs)\<rparr>
          else let cols = union_columns dfs
               in Inr \<lparr>columns = cols,
                       rows = concat (map (\<lambda>d. map (reindex_row cols (columns d)) (rows d)) dfs)\<rparr>)"

subsection \<open>Responses and flashed messages\<close>

datatype response =
    Redirect_index     \<comment> \<open>\<open>redirect(url_for('index'))\<close>\<close>
  | Send_file bytes    \<comment> \<open>\<open>send_file(..., mimetype='text/csv', download_name='combined_output.csv')\<close>\<close>
  | Render_index "string list"  \<comment> \<open>\<open>render_template('index.html', uploaded_files=...)\<close>\<close>

text \<open>The messages passed to \<open>flash\<close>, one constructor for each format string of app.py.\<close>

datatype flash =
    Error_accessing_folder string   \<comment> \<open>\<open>Error accessing uploads folder: {e}\<close>\<close>
  | No_files_selected               \<comment> \<open>\<open>No files selected\<close>\<close>
  | File_is_empty string            \<comment> \<open>\<open>File {name} is empty\<close>\<close>
  | File_too_large string           \<comment> \<open>\<open>File {name} exceeds size limit (50 MB)\<close>\<close>
  | File_empty_or_invalid string    \<comment> \<open>\<open>File {name} is empty or invalid\<close>\<close>
  | Failed_to_save string string    \<comment> \<open>\<open>Failed to save {name}: {e}\<close>\<close>
  | Invalid_file string             \<comment> \<open>\<open>Invalid file: {name}. Only CSV files are allowed.\<close>\<close>
  | Uploaded_count nat              \<comment> \<open>\<open>Successfully uploaded {n} file(s)\<close>\<close>
  | None_uploaded                   \<comment> \<open>\<open>No files were successfully uploaded\<close>\<close>
  | Removed string                  \<comment> \<open>\<open>Removed {name}\<close>\<close>
  | Failed_to_remove string string  \<comment> \<open>\<open>Failed to remove {name}: {e}\<close>\<close>
  | File_not_found string           \<comment> \<open>\<open>File {name} not found\<close>\<close>
  | No_csv_files_found              \<comment> \<open>\<open>No CSV files found in uploads folder\<close>\<close>
  | Header_mismatch                 \<comment> \<open>\<open>Header mismatch detected. All CSV files must have identical headers.\<close>\<close>
  | Error_reading string string     \<comment> \<open>\<open>Error reading {name}: {e}\<close>\<close>
  | No_valid_csv                    \<comment> \<open>\<open>No valid CSV files could be read\<close>\<close>
  | Error_combining string          \<comment> \<open>\<open>Error combining files: {e}\<close>\<close>

subsection \<open>\<open>index\<close> (lines 40--49)\<close>

definition index :: "faults \<Rightarrow> filesystem \<Rightarrow> response \<times> flash list" where
  "index io fs =
     (case os_listdir io fs of
        Inl e \<Rightarrow> (Render_index [], [Error_accessing_folder e])
      | Inr names \<Rightarrow> (Render_index (filter allowed_file names), []))"

subsection \<open>\<open>upload_files\<close> (lines 51--110)\<close>




subsection \<open>\<open>remove_file\<close> (lines 112--126)\<close>

definition remove_file ::
  "faults \<Rightarrow> (string \<Rightarrow> string) \<Rightarrow> filesystem \<Rightarrow> string \<Rightarrow> response \<times> flash list \<times> filesystem" where
  "remove_file io nfkd fs filename =
     (let file_path = os_path_join UPLOAD_FOLDER (secure_filename nfkd filename)
      in if os_path_exists fs file_path then
           (case os_remove io fs file_path of
              Inr fs' \<Rightarrow> (Redirect_index, [Removed filename], fs')
            | Inl e \<Rightarrow> (Redirect_index, [Failed_to_remove filename e], fs))
         else (Redirect_index, [File_not_found filename], fs))"

subsection \<open>\<open>combine_csv\<close> (lines 128--213)\<close>

fun existing_paths :: "filesystem \<Rightarrow> string list \<Rightarrow> string + path list" where
  \<comment> \<open>Lines 143--151: the paths of the listed files, or the first name that is gone.\<close>
  "existing_paths fs [] = Inr []"
| "existing_paths fs (filename # rest) =
     (let file_path = os_path_join UPLOAD_FOLDER filename
      in if os_path_exists fs file_path then
           (case existing_paths fs rest of
              Inl missing \<Rightarrow> Inl missing
            | Inr valid_files \<Rightarrow> Inr (file_path # valid_files))
         else Inl filename)"

fun read_files ::
  "faults \<Rightarrow> pandas \<Rightarrow> filesystem \<Rightarrow> path list \<Rightarrow> dataframe list \<Rightarrow> string list option \<Rightarrow> flash list
     \<Rightarrow> flash list + (dataframe list \<times> flash list)" where
  \<comment> \<open>The loop of lines 156--181 with its variables \<open>dfs\<close> and \<open>headers\<close> and the messages
      flashed so far. \<open>Inl\<close> is an early \<open>return redirect(url_for('index'))\<close>.\<close>
  "read_files io pd fs [] dfs headers fl = Inr (dfs, fl)"
| "read_files io pd fs (file_path # rest) dfs headers fl =
     (case read_bytes io fs file_path of
        Inl e \<Rightarrow> Inl (fl @ [Error_reading (basename file_path) e])
      | Inr file_content \<Rightarrow>
          if file_content = []
          then read_files io pd fs rest dfs headers (fl @ [File_is_empty (basename file_path)])
          else
            (case read_csv pd csv_options file_content of
               Inl e \<Rightarrow> Inl (fl @ [Error_reading (basename file_path) e])
             | Inr df \<Rightarrow>
                 if df_empty df
                 then read_files io pd fs rest dfs headers
                        (fl @ [File_empty_or_invalid (basename file_path)])
                 else if headers = None
                 then read_files io pd fs rest (dfs @ [df]) (Some (columns df)) fl
                 else if Some (columns df) \<noteq> headers then Inl (fl @ [Header_mismatch])
                 else read_files io pd fs rest (dfs @ [df]) headers fl))"

fun delete_files :: "faults \<Rightarrow> filesystem \<Rightarrow> path list \<Rightarrow> filesystem" where
  \<comment> \<open>Lines 196--201: a removal that raises is logged and the loop goes on.\<close>
  "delete_files io fs [] = fs"
| "delete_files io fs (file_path # rest) =
     (case os_remove io fs file_path of
        Inl e \<Rightarrow> delete_files io fs rest
      | Inr fs' \<Rightarrow> delete_files io fs' rest)"

definition combine_csv :: "faults \<Rightarrow> pandas \<Rightarrow> filesystem \<Rightarrow> response \<times> flash list \<times> filesystem" where
  "combine_csv io pd fs =
     (case os_listdir io fs of
        Inl e \<Rightarrow> (Redirect_index, [Error_accessing_folder e], fs)
      | Inr names \<Rightarrow>
          (let uploaded_files = filter allowed_file names
           in if uploaded_files = [] then (Redirect_index, [No_csv_files_found], fs)
              else
                (case existing_paths fs uploaded_files of
                   Inl missing \<Rightarrow> (Redirect_index, [File_not_found missing], fs)
                 | Inr valid_files \<Rightarrow>
                     (case read_files io pd fs valid_files [] None [] of
                        Inl fl \<Rightarrow> (Redirect_index, fl, fs)
                      | Inr (dfs, fl) \<Rightarrow>
                          if dfs = [] then (Redirect_index, fl @ [No_valid_csv], fs)
                          else
                            (case pd_concat dfs of
                               Inl e \<Rightarrow> (Redirect_index, fl @ [Error_combining e], fs)
                             | Inr combined_df \<Rightarrow>
                                 (Send_file (to_csv pd combined_df), fl,
                                  delete_files io fs valid_files))))))"

subsection \<open>Vocabulary of the properties\<close>

definition uploaded_paths :: "filesystem \<Rightarrow> path list" where
  \<comment> \<open>\<open>valid_files\<close>: the paths of \<open>uploaded_files\<close>, the listed names that pass
      \<open>allowed_file\<close>, in listing order.\<close>
  "uploaded_paths fs =
     map (os_path_join UPLOAD_FOLDER) (filter allowed_file (listed_names fs))"

definition reads_ok :: "faults \<Rightarrow> pandas \<Rightarrow> filesystem \<Rightarrow> path \<Rightarrow> bool" where
  \<comment> \<open>The file can be read and, unless it has no bytes, \<open>read_csv\<close> returns a frame.\<close>
  "reads_ok io pd fs p =
     (case read_bytes io fs p of
        Inl e \<Rightarrow> False
      | Inr b \<Rightarrow> b = [] \<or> (case read_csv pd csv_options b of Inl e \<Rightarrow> False | Inr df \<Rightarrow> True))"

definition frame_at :: "faults \<Rightarrow> pandas \<Rightarrow> filesystem \<Rightarrow> path \<Rightarrow> dataframe option" where
  \<comment> \<open>The frame of an accepted file: one with bytes, that parses, to a frame that is not
      empty.\<close>
  "frame_at io pd fs p =
     (case read_bytes io fs p of
        Inl e \<Rightarrow> None
      | Inr b \<Rightarrow>
          if b = [] then None
          else (case read_csv pd csv_options b of
                  Inl e \<Rightarrow> None
                | Inr df \<Rightarrow> if df_empty df then None else Some df))"

definition accepted_frames :: "faults \<Rightarrow> pandas \<Rightarrow> filesystem \<Rightarrow> path list \<Rightarrow> dataframe list" where
  "accepted_frames io pd fs ps = List.map_filter (frame_at io pd fs) ps"

definition reference_header :: "faults \<Rightarrow> pandas \<Rightarrow> filesystem \<Rightarrow> path list \<Rightarrow> string list option" where
  \<comment> \<open>The header of the first accepted file.\<close>
  "reference_header io pd fs ps =
     (case accepted_frames io pd fs ps of [] \<Rightarrow> None | df # _ \<Rightarrow> Some (columns df))"

definition outcome_of :: "flash list + (dataframe list \<times> flash list) \<Rightarrow> unit + dataframe list" where
  \<comment> \<open>What the loop of lines 156--181 leaves to the rest of \<open>combine_csv\<close>: an early
      return, or the frames collected; the flashed messages aside.\<close>
  "outcome_of r = map_sum (\<lambda>_. ()) fst r"

subsection \<open>A stand-in for pandas on plain text\<close>

text \<open>
  Parsing and serialisation are pandas' and not code of the application, so the properties
  of \<open>combine_csv\<close> are proved for every parser and serialiser wherever they do not depend
  on what the bytes of a file mean. Where they do (which fields of a file reach the
  combined file), and to run the routes on concrete files, \<open>plain_pandas\<close> stands for
  pandas on plain tables: comma-separated text without quoting, lines ended by a line
  feed, the first line the header, blank lines skipped, a text without any line raising;
  a field is read as \<open>NaN\<close> only when \<open>keep_default_na\<close> is set and the field is one of
  the default markers. On the plain tables of \<open>plain_table\<close> below this is what pandas
  does with the keyword arguments of line 165.
\<close>

fun split_on :: "char \<Rightarrow> string \<Rightarrow> string \<Rightarrow> string list" where
  \<comment> \<open>\<open>s.split(sep)\<close>; \<open>cur\<close> is the field being read.\<close>
  "split_on sep cur [] = [cur]"
| "split_on sep cur (c # cs) =
     (if c = sep then cur # split_on sep [] cs else split_on sep (cur @ [c]) cs)"

definition plain_lines :: "bytes \<Rightarrow> string list" where
  \<comment> \<open>The lines of the text; blank lines are skipped.\<close>
  "plain_lines b = filter (\<lambda>l. l \<noteq> []) (split_on CHR 0x0A [] b)"

definition default_na_values :: "string list" where
  \<comment> \<open>The strings that pandas reads as \<open>NaN\<close> by default.\<close>
  "default_na_values =
     [[], ''#N/A'', ''#N/A N/A'', ''#NA'', ''-1.#IND'', ''-1.#QNAN'', ''-NaN'', ''-nan'',
      ''1.#IND'', ''1.#QNAN'', ''<NA>'', ''N/A'', ''NA'', ''NULL'', ''NaN'', ''None'',
      ''n/a'', ''nan'', ''null'']"

definition plain_cell :: "read_options \<Rightarrow> string \<Rightarrow> cell" where
  "plain_cell opts s =
     (if keep_default_na opts \<and> s \<in> set default_na_values then NaN else Str s)"

definition plain_read_csv :: "read_options \<Rightarrow> bytes \<Rightarrow> string + dataframe" where
  "plain_read_csv opts b =
     (case plain_lines b of
        [] \<Rightarrow> Inl ''No columns to parse from file''
      | header # body \<Rightarrow>
          Inr \<lparr>columns = split_on CHR '','' [] header,
               rows = map (\<lambda>l. map (plain_cell opts) (split_on CHR '','' [] l)) body\<rparr>)"

fun cell_text :: "cell \<Rightarrow> string" where
  "cell_text (Str s) = s"
| "cell_text NaN = []"

definition plain_to_csv :: "dataframe \<Rightarrow> bytes" where
  "plain_to_csv df =
     concat (map (\<lambda>l. l @ [CHR 0x0A])
               (str_join '','' (columns df) # map (\<lambda>r. str_join '','' (map cell_text r)) (rows df)))"

definition plain_pandas :: pandas where
  "plain_pandas = \<lparr>read_csv = plain_read_csv, to_csv = plain_to_csv\<rparr>"






section \<open>Properties\<close>

subsection \<open>The listing and the paths of the listed files\<close>

lemma entry_name_SomeD:
  assumes "entry_name p = Some n"
  shows "p = UPLOAD_FOLDER @ ''/'' @ n \<and> plain_name n"
proof -
  let ?pre = "UPLOAD_FOLDER @ ''/''"
  from assms have t: "take (length ?pre) p = ?pre" and n: "n = drop (length ?pre) p"
    and pl: "plain_name n"
    by (auto simp: entry_name_def Let_def split: if_splits)
  have "p = take (length ?pre) p @ drop (length ?pre) p" by simp
  with t n have "p = ?pre @ n" by simp
  with pl show ?thesis by simp
qed

lemma join_plain: "plain_name n \<Longrightarrow> os_path_join UPLOAD_FOLDER n = UPLOAD_FOLDER @ ''/'' @ n"
  by (cases n) (auto simp: os_path_join_def plain_name_def)

lemma listed_names_D:
  assumes "n \<in> set (listed_names fs)"
  shows "plain_name n \<and> os_path_join UPLOAD_FOLDER n \<in> fst ` set fs"
proof -
  from assms obtain p b where p: "(p, b) \<in> set fs" "entry_name p = Some n"
    unfolding listed_names_def List.map_filter_def by auto
  from p(1) have "p \<in> fst ` set fs" by (rule image_eqI[rotated]) simp
  with entry_name_SomeD[OF p(2)] show ?thesis
    by (simp add: join_plain)
qed

lemma existing_paths_all:
  "\<forall>n \<in> set names. os_path_exists fs (os_path_join UPLOAD_FOLDER n) \<Longrightarrow>
   existing_paths fs names = Inr (map (os_path_join UPLOAD_FOLDER) names)"
  by (induction names) (simp_all add: Let_def)

lemma existing_paths_uploaded:
  "existing_paths fs (filter allowed_file (listed_names fs)) = Inr (uploaded_paths fs)"
  unfolding uploaded_paths_def
  by (rule existing_paths_all) (simp add: os_path_exists_def listed_names_D)

lemma combine_csv_unfold:
  assumes "listdir_raises io = None"
  shows "combine_csv io pd fs =
     (if uploaded_paths fs = [] then (Redirect_index, [No_csv_files_found], fs)
      else (case read_files io pd fs (uploaded_paths fs) [] None [] of
              Inl fl \<Rightarrow> (Redirect_index, fl, fs)
            | Inr (dfs, fl) \<Rightarrow>
                if dfs = [] then (Redirect_index, fl @ [No_valid_csv], fs)
                else (case pd_concat dfs of
                        Inl e \<Rightarrow> (Redirect_index, fl @ [Error_combining e], fs)
                      | Inr combined_df \<Rightarrow>
                          (Send_file (to_csv pd combined_df), fl,
                           delete_files io fs (uploaded_paths fs)))))"
proof -
  have l: "os_listdir io fs = Inr (listed_names fs)"
    using assms by (simp add: os_listdir_def)
  have e: "(filter allowed_file (listed_names fs) = []) = (uploaded_paths fs = [])"
    by (simp add: uploaded_paths_def)
  show ?thesis
  proof (cases "uploaded_paths fs = []")
    case True
    with e show ?thesis by (simp add: combine_csv_def l)
  next
    case False
    with e show ?thesis
      by (simp add: combine_csv_def l existing_paths_uploaded)
  qed
qed

subsection \<open>The reading loop\<close>

lemma accepted_frames_Nil [simp]: "accepted_frames io pd fs [] = []"
  by (simp add: accepted_frames_def List.map_filter_def)

lemma accepted_frames_Cons:
  "accepted_frames io pd fs (p # ps) =
     (case frame_at io pd fs p of None \<Rightarrow> accepted_frames io pd fs ps
      | Some df \<Rightarrow> df # accepted_frames io pd fs ps)"
  by (simp add: accepted_frames_def List.map_filter_def split: option.splits)

lemma accepted_frames_append:
  "accepted_frames io pd fs (ps @ qs) = accepted_frames io pd fs ps @ accepted_frames io pd fs qs"
  by (simp add: accepted_frames_def List.map_filter_def)

lemma reference_header_Cons:
  "reference_header io pd fs (p # ps) =
     (case frame_at io pd fs p of None \<Rightarrow> reference_header io pd fs ps
      | Some df \<Rightarrow> Some (columns df))"
  by (simp add: reference_header_def accepted_frames_Cons split: option.splits)

lemma frame_at_reads_ok: "frame_at io pd fs p = Some df \<Longrightarrow> reads_ok io pd fs p"
  by (auto simp: frame_at_def reads_ok_def split: sum.splits if_splits)

lemma read_files_skip:
  assumes "reads_ok io pd fs p" "frame_at io pd fs p = None"
  shows "\<exists>w. read_files io pd fs (p # ps) dfs headers fl =
               read_files io pd fs ps dfs headers (fl @ [w])"
  using assms by (cases "read_bytes io fs p") (auto simp: frame_at_def reads_ok_def split: sum.splits if_splits)

lemma read_files_first:
  assumes "frame_at io pd fs p = Some df"
  shows "read_files io pd fs (p # ps) dfs None fl =
           read_files io pd fs ps (dfs @ [df]) (Some (columns df)) fl"
  using assms by (cases "read_bytes io fs p") (auto simp: frame_at_def split: sum.splits if_splits)

lemma read_files_match:
  assumes "frame_at io pd fs p = Some df" "columns df = h"
  shows "read_files io pd fs (p # ps) dfs (Some h) fl =
           read_files io pd fs ps (dfs @ [df]) (Some h) fl"
  using assms by (cases "read_bytes io fs p") (auto simp: frame_at_def split: sum.splits if_splits)

lemma read_files_mismatch:
  assumes "frame_at io pd fs p = Some df" "columns df \<noteq> h"
  shows "read_files io pd fs (p # ps) dfs (Some h) fl = Inl (fl @ [Header_mismatch])"
  using assms by (cases "read_bytes io fs p") (auto simp: frame_at_def split: sum.splits if_splits)

lemma read_files_error:
  assumes "\<not> reads_ok io pd fs p"
  shows "\<exists>e. read_files io pd fs (p # ps) dfs headers fl =
               Inl (fl @ [Error_reading (basename p) e])"
  using assms by (cases "read_bytes io fs p") (auto simp: reads_ok_def split: sum.splits if_splits)

declare read_files.simps(2) [simp del]

lemma read_files_prefix:
  assumes "\<forall>p \<in> set pre. reads_ok io pd fs p"
  shows "(\<exists>fl'. read_files io pd fs (pre @ rest) dfs headers fl = Inl (fl' @ [Header_mismatch])) \<or>
         (\<exists>fl'. read_files io pd fs (pre @ rest) dfs headers fl =
                 read_files io pd fs rest (dfs @ accepted_frames io pd fs pre)
                   (case headers of None \<Rightarrow> reference_header io pd fs pre | Some h \<Rightarrow> Some h) fl')"
  using assms
proof (induction pre arbitrary: dfs headers fl)
  case Nil
  show ?case by (cases headers) (auto simp: reference_header_def)
next
  case (Cons p pre)
  then have ok: "reads_ok io pd fs p" and rest_ok: "\<forall>q \<in> set pre. reads_ok io pd fs q"
    by simp_all
  show ?case
  proof (cases "frame_at io pd fs p")
    case None
    from read_files_skip[OF ok None] obtain w where
      w: "read_files io pd fs (p # pre @ rest) dfs headers fl =
          read_files io pd fs (pre @ rest) dfs headers (fl @ [w])" by blast
    from Cons.IH[OF rest_ok, of dfs headers "fl @ [w]"] w None show ?thesis
      by (cases headers) (simp_all add: accepted_frames_Cons reference_header_Cons)
  next
    case (Some df)
    show ?thesis
    proof (cases headers)
      case None
      from Cons.IH[OF rest_ok, of "dfs @ [df]" "Some (columns df)" fl]
        read_files_first[OF Some, of "pre @ rest" dfs fl] None Some
      show ?thesis
        by (simp add: accepted_frames_Cons reference_header_Cons)
    next
      case h: (Some h)
      show ?thesis
      proof (cases "columns df = h")
        case True
        from Cons.IH[OF rest_ok, of "dfs @ [df]" "Some h" fl]
          read_files_match[OF Some True, of "pre @ rest" dfs fl] h Some
        show ?thesis
          by (simp add: accepted_frames_Cons)
      next
        case False
        from read_files_mismatch[OF Some False, of "pre @ rest" dfs fl] h
        show ?thesis by auto
      qed
    qed
  qed
qed

lemma read_files_all_ok:
  assumes "\<forall>p \<in> set ps. reads_ok io pd fs p"
    and "\<forall>df \<in> set (accepted_frames io pd fs ps). columns df = h"
    and "headers = None \<or> headers = Some h"
  shows "\<exists>fl'. read_files io pd fs (ps @ rest) dfs headers fl =
                read_files io pd fs rest (dfs @ accepted_frames io pd fs ps)
                  (if accepted_frames io pd fs ps = [] then headers else Some h) fl'"
  using assms
proof (induction ps arbitrary: dfs headers fl)
  case Nil
  show ?case by auto
next
  case (Cons p ps)
  then have ok: "reads_ok io pd fs p" and rest_ok: "\<forall>q \<in> set ps. reads_ok io pd fs q"
    by simp_all
  show ?case
  proof (cases "frame_at io pd fs p")
    case None
    from read_files_skip[OF ok None] obtain w where
      w: "read_files io pd fs (p # ps @ rest) dfs headers fl =
          read_files io pd fs (ps @ rest) dfs headers (fl @ [w])" by blast
    from Cons.prems(2) None have a: "\<forall>df \<in> set (accepted_frames io pd fs ps). columns df = h"
      by (simp add: accepted_frames_Cons)
    from Cons.IH[OF rest_ok a Cons.prems(3), of dfs "fl @ [w]"] w None show ?thesis
      by (simp add: accepted_frames_Cons)
  next
    case (Some df)
    from Cons.prems(2) Some have c: "columns df = h"
      and a: "\<forall>df \<in> set (accepted_frames io pd fs ps). columns df = h"
      by (simp_all add: accepted_frames_Cons)
    have step: "read_files io pd fs (p # ps @ rest) dfs headers fl =
                read_files io pd fs (ps @ rest) (dfs @ [df]) (Some h) fl"
      using Cons.prems(3) read_files_first[OF Some, of "ps @ rest" dfs fl]
        read_files_match[OF Some c, of "ps @ rest" dfs fl] c by auto
    from Cons.IH[OF rest_ok a, of "Some h" "dfs @ [df]" fl] step Some show ?thesis
      by (simp add: accepted_frames_Cons)
  qed
qed

lemma read_files_Inr:
  assumes "read_files io pd fs ps dfs headers fl = Inr (dfs', fl')"
  shows "(\<forall>p \<in> set ps. reads_ok io pd fs p) \<and> dfs' = dfs @ accepted_frames io pd fs ps \<and>
         (\<exists>h. (headers = None \<or> headers = Some h) \<and>
              (\<forall>df \<in> set (accepted_frames io pd fs ps). columns df = h))"
  using assms
proof (induction ps arbitrary: dfs headers fl)
  case Nil
  then show ?case by (cases headers) auto
next
  case (Cons p ps)
  have ok: "reads_ok io pd fs p"
  proof (rule ccontr)
    assume "\<not> reads_ok io pd fs p"
    from read_files_error[OF this, of ps dfs headers fl] Cons.prems show False by auto
  qed
  show ?case
  proof (cases "frame_at io pd fs p")
    case None
    from read_files_skip[OF ok None, of ps dfs headers fl] Cons.prems obtain w where
      "read_files io pd fs ps dfs headers (fl @ [w]) = Inr (dfs', fl')" by auto
    from Cons.IH[OF this] ok None show ?thesis
      by (simp add: accepted_frames_Cons)
  next
    case (Some df)
    show ?thesis
    proof (cases headers)
      case None
      with read_files_first[OF Some, of ps dfs fl] Cons.prems
      have "read_files io pd fs ps (dfs @ [df]) (Some (columns df)) fl = Inr (dfs', fl')"
        by simp
      from Cons.IH[OF this] ok None Some show ?thesis
        by (auto simp: accepted_frames_Cons)
    next
      case h: (Some h)
      have c: "columns df = h"
      proof (rule ccontr)
        assume "columns df \<noteq> h"
        from read_files_mismatch[OF Some this, of ps dfs fl] Cons.prems h show False by simp
      qed
      with read_files_match[OF Some c, of ps dfs fl] Cons.prems h
      have "read_files io pd fs ps (dfs @ [df]) (Some h) fl = Inr (dfs', fl')"
        by simp
      from Cons.IH[OF this] ok h Some c show ?thesis
        by (auto simp: accepted_frames_Cons)
    qed
  qed
qed

subsection \<open>Success and failure of combine_csv\<close>

lemma pd_concat_same_columns:
  assumes "dfs \<noteq> []" "\<forall>d \<in> set dfs. columns d = h"
  shows "pd_concat dfs = Inr \<lparr>columns = h, rows = concat (map rows dfs)\<rparr>"
  using assms by (cases dfs) (simp_all add: pd_concat_def)

lemma read_files_complete:
  assumes "\<forall>p \<in> set ps. reads_ok io pd fs p"
    and "\<forall>df \<in> set (accepted_frames io pd fs ps). columns df = h"
  shows "\<exists>fl. read_files io pd fs ps [] None [] = Inr (accepted_frames io pd fs ps, fl)"
  using read_files_all_ok[OF assms, of None "[]" "[]" "[]"] by simp

lemma combine_csv_success:
  assumes "listdir_raises io = None"
    and "\<forall>p \<in> set (uploaded_paths fs). reads_ok io pd fs p"
    and "\<forall>df \<in> set (accepted_frames io pd fs (uploaded_paths fs)). columns df = h"
    and "accepted_frames io pd fs (uploaded_paths fs) \<noteq> []"
  shows "\<exists>fl. combine_csv io pd fs =
           (Send_file (to_csv pd \<lparr>columns = h,
                         rows = concat (map rows (accepted_frames io pd fs (uploaded_paths fs)))\<rparr>),
            fl, delete_files io fs (uploaded_paths fs))"
proof -
  from assms(4) have ne: "uploaded_paths fs \<noteq> []" by auto
  from read_files_complete[OF assms(2,3)] obtain fl where
    r: "read_files io pd fs (uploaded_paths fs) [] None [] =
        Inr (accepted_frames io pd fs (uploaded_paths fs), fl)" by blast
  show ?thesis
    by (simp add: combine_csv_unfold[OF assms(1)] ne r assms(4)
        pd_concat_same_columns[OF assms(4,3)])
qed

lemma combine_csv_Send_fileD:
  assumes "combine_csv io pd fs = (Send_file out, fl, fs')"
  shows "listdir_raises io = None \<and>
         (\<forall>p \<in> set (uploaded_paths fs). reads_ok io pd fs p) \<and>
         accepted_frames io pd fs (uploaded_paths fs) \<noteq> [] \<and>
         (\<exists>h. (\<forall>df \<in> set (accepted_frames io pd fs (uploaded_paths fs)). columns df = h) \<and>
              out = to_csv pd \<lparr>columns = h,
                      rows = concat (map rows (accepted_frames io pd fs (uploaded_paths fs)))\<rparr>) \<and>
         fs' = delete_files io fs (uploaded_paths fs)"
proof -
  have l: "listdir_raises io = None"
  proof (cases "listdir_raises io")
    case (Some e)
    with assms show ?thesis by (simp add: combine_csv_def os_listdir_def)
  qed simp
  note u = combine_csv_unfold[OF l, of pd fs]
  from assms u have ne: "uploaded_paths fs \<noteq> []" by (auto split: if_splits)
  from assms u ne obtain dfs fl0 where
    r: "read_files io pd fs (uploaded_paths fs) [] None [] = Inr (dfs, fl0)"
    by (cases "read_files io pd fs (uploaded_paths fs) [] None []") auto
  from read_files_Inr[OF r] obtain h where
    ok: "\<forall>p \<in> set (uploaded_paths fs). reads_ok io pd fs p"
    and dfs: "dfs = accepted_frames io pd fs (uploaded_paths fs)"
    and h: "\<forall>df \<in> set (accepted_frames io pd fs (uploaded_paths fs)). columns df = h"
    by auto
  from assms u ne r have dne: "dfs \<noteq> []" by (auto split: if_splits)
  from pd_concat_same_columns[OF dne] h dfs
  have c: "pd_concat dfs = Inr \<lparr>columns = h, rows = concat (map rows dfs)\<rparr>" by simp
  from assms u ne r dne c have "out = to_csv pd \<lparr>columns = h, rows = concat (map rows dfs)\<rparr>"
    and "fs' = delete_files io fs (uploaded_paths fs)" by simp_all
  with l ok dfs h dne show ?thesis by auto
qed

lemma combine_csv_response:
  "fst (combine_csv io pd fs) = Redirect_index \<or> (\<exists>out. fst (combine_csv io pd fs) = Send_file out)"
  by (auto simp: combine_csv_def Let_def split: sum.splits prod.splits)

lemma combine_csv_Redirect_fs:
  assumes "fst (combine_csv io pd fs) = Redirect_index"
  shows "snd (snd (combine_csv io pd fs)) = fs"
  using assms by (auto simp: combine_csv_def Let_def split: sum.splits prod.splits if_splits)

subsection \<open>Combining: the empty listing and the concatenation\<close>

text \<open>
  C7. When the listing of the folder has no name that passes \<open>allowed_file\<close>,
  \<open>combine_csv\<close> redirects with the message "No CSV files found in uploads folder",
  sends no file, and leaves the file system as it was.
\<close>

theorem combine_no_files:
  assumes "os_listdir io fs = Inr names" and "filter allowed_file names = []"
  shows "combine_csv io pd fs = (Redirect_index, [No_csv_files_found], fs)"
  using assms by (simp add: combine_csv_def)

theorem combine_no_files_witness:
  "os_listdir no_faults [(''uploads/notes.txt'', ''hello'')] = Inr [''notes.txt''] \<and>
   filter allowed_file [''notes.txt''] = [] \<and>
   combine_csv no_faults plain_pandas [(''uploads/notes.txt'', ''hello'')] =
     (Redirect_index, [No_csv_files_found], [(''uploads/notes.txt'', ''hello'')])"
proof -
  have l: "os_listdir no_faults [(''uploads/notes.txt'', ''hello'')] = Inr [''notes.txt'']"
    by code_simp
  have f: "filter allowed_file [''notes.txt''] = []"
    by code_simp
  from combine_no_files[OF l f, of plain_pandas] l f show ?thesis by simp
qed

text \<open>
  C1. The claim does not hold when no file contributes a row: a folder whose only file is a
  header line parses without error, and \<open>combine_csv\<close> answers "No valid CSV files could
  be read".
\<close>

theorem combine_header_only_counterexample:
  "reads_ok no_faults plain_pandas [(''uploads/a.csv'', ''a,b\<newline>'')] ''uploads/a.csv'' \<and>
   read_csv plain_pandas csv_options ''a,b\<newline>'' = Inr \<lparr>columns = [''a'', ''b''], rows = []\<rparr> \<and>
   combine_csv no_faults plain_pandas [(''uploads/a.csv'', ''a,b\<newline>'')] =
     (Redirect_index, [File_empty_or_invalid ''a.csv'', No_valid_csv],
      [(''uploads/a.csv'', ''a,b\<newline>'')])"
  by code_simp

text \<open>
  C1, amended. If the listing succeeds, every listed file can be read and parses (or has no
  bytes), the accepted files (those whose frame is not empty) all have the header \<open>h\<close>,
  and there is at least one accepted file, then \<open>combine_csv\<close> sends a file: the
  serialisation of the frame whose header is \<open>h\<close>, the reference header, and whose rows
  are the rows of the accepted files, file after file in listing order, each file's rows
  in their order.
\<close>

theorem combine_concatenates:
  assumes "listdir_raises io = None"
    and "\<forall>p \<in> set (uploaded_paths fs). reads_ok io pd fs p"
    and "\<forall>df \<in> set (accepted_frames io pd fs (uploaded_paths fs)). columns df = h"
    and "accepted_frames io pd fs (uploaded_paths fs) \<noteq> []"
  shows "reference_header io pd fs (uploaded_paths fs) = Some h \<and>
         fst (combine_csv io pd fs) =
           Send_file (to_csv pd \<lparr>columns = h,
                        rows = concat (map rows (accepted_frames io pd fs (uploaded_paths fs)))\<rparr>)"
proof -
  from assms(3,4) have "reference_header io pd fs (uploaded_paths fs) = Some h"
    by (cases "accepted_frames io pd fs (uploaded_paths fs)") (simp_all add: reference_header_def)
  moreover from combine_csv_success[OF assms] have
    "fst (combine_csv io pd fs) =
           Send_file (to_csv pd \<lparr>columns = h,
                        rows = concat (map rows (accepted_frames io pd fs (uploaded_paths fs)))\<rparr>)"
    by auto
  ultimately show ?thesis by simp
qed

theorem combine_concatenates_witness:
  "listdir_raises no_faults = None \<and>
   uploaded_paths [(''uploads/A.csv'', ''a,b\<newline>1,2\<newline>''), (''uploads/B.csv'', ''a,b\<newline>3,4\<newline>'')] =
     [''uploads/A.csv'', ''uploads/B.csv''] \<and>
   accepted_frames no_faults plain_pandas
        [(''uploads/A.csv'', ''a,b\<newline>1,2\<newline>''), (''uploads/B.csv'', ''a,b\<newline>3,4\<newline>'')]
        (uploaded_paths [(''uploads/A.csv'', ''a,b\<newline>1,2\<newline>''), (''uploads/B.csv'', ''a,b\<newline>3,4\<newline>'')]) =
     [\<lparr>columns = [''a'', ''b''], rows = [[Str ''1'', Str ''2'']]\<rparr>,
      \<lparr>columns = [''a'', ''b''], rows = [[Str ''3'', Str ''4'']]\<rparr>] \<and>
   fst (combine_csv no_faults plain_pandas
        [(''uploads/A.csv'', ''a,b\<newline>1,2\<newline>''), (''uploads/B.csv'', ''a,b\<newline>3,4\<newline>'')]) =
     Send_file (to_csv plain_pandas
       \<lparr>columns = [''a'', ''b''], rows = [[Str ''1'', Str ''2''], [Str ''3'', Str ''4'']]\<rparr>) \<and>
   to_csv plain_pandas
       \<lparr>columns = [''a'', ''b''], rows = [[Str ''1'', Str ''2''], [Str ''3'', Str ''4'']]\<rparr> =
     ''a,b\<newline>1,2\<newline>3,4\<newline>''"
proof -
  let ?fs = "[(''uploads/A.csv'', ''a,b\<newline>1,2\<newline>''), (''uploads/B.csv'', ''a,b\<newline>3,4\<newline>'')]"
  have l: "listdir_raises no_faults = None" by (simp add: no_faults_def)
  have ok: "\<forall>p \<in> set (uploaded_paths ?fs). reads_ok no_faults plain_pandas ?fs p"
    by code_simp
  have acc: "accepted_frames no_faults plain_pandas ?fs (uploaded_paths ?fs) =
     [\<lparr>columns = [''a'', ''b''], rows = [[Str ''1'', Str ''2'']]\<rparr>,
      \<lparr>columns = [''a'', ''b''], rows = [[Str ''3'', Str ''4'']]\<rparr>]"
    by code_simp
  have h: "\<forall>df \<in> set (accepted_frames no_faults plain_pandas ?fs (uploaded_paths ?fs)).
             columns df = [''a'', ''b'']"
    unfolding acc by simp
  have ne: "accepted_frames no_faults plain_pandas ?fs (uploaded_paths ?fs) \<noteq> []"
    unfolding acc by simp
  have out: "to_csv plain_pandas
       \<lparr>columns = [''a'', ''b''], rows = [[Str ''1'', Str ''2''], [Str ''3'', Str ''4'']]\<rparr> =
     ''a,b\<newline>1,2\<newline>3,4\<newline>''"
    by code_simp
  have up: "uploaded_paths ?fs = [''uploads/A.csv'', ''uploads/B.csv'']"
    by code_simp
  from combine_concatenates[OF l ok h ne] l up acc out show ?thesis
    by simp
qed

subsection \<open>Combining: mismatching headers and parse errors\<close>

lemma read_files_parse_error:
  assumes "read_bytes io fs p = Inr b" "b \<noteq> []" "read_csv pd csv_options b = Inl e"
  shows "read_files io pd fs (p # ps) dfs headers fl = Inl (fl @ [Error_reading (basename p) e])"
  using assms by (simp add: read_files.simps(2))

lemma basename_join:
  assumes "CHR ''/'' \<notin> set n"
  shows "basename (d @ CHR ''/'' # n) = n"
proof -
  from assms have "\<forall>x \<in> set (rev n). x \<noteq> CHR ''/''" by auto
  then have "takeWhile (\<lambda>c. c \<noteq> CHR ''/'') (rev n @ CHR ''/'' # rev d) = rev n"
    by (simp add: takeWhile_tail)
  then show ?thesis by (simp add: basename_def)
qed

lemma entry_name_plain:
  assumes "plain_name n"
  shows "entry_name (UPLOAD_FOLDER @ ''/'' @ n) = Some n"
  using assms by (simp add: entry_name_def Let_def)

lemma uploaded_paths_D:
  assumes "p \<in> set (uploaded_paths fs)"
  shows "entry_name p = Some (basename p) \<and> allowed_file (basename p) \<and> p \<in> fst ` set fs \<and>
         \<not> is_upload_dir p"
proof -
  from assms obtain n where n: "n \<in> set (listed_names fs)" "allowed_file n"
    and p: "p = os_path_join UPLOAD_FOLDER n"
    by (auto simp: uploaded_paths_def)
  from listed_names_D[OF n(1)] have pl: "plain_name n" and mem: "p \<in> fst ` set fs"
    using p by simp_all
  from pl p have p': "p = UPLOAD_FOLDER @ ''/'' @ n" by (simp add: join_plain)
  from pl have "CHR ''/'' \<notin> set n" "n \<noteq> []" by (simp_all add: plain_name_def)
  then have b: "basename p = n" and nd: "\<not> is_upload_dir p"
    unfolding p' by (simp_all add: basename_join is_upload_dir_def)
  from entry_name_plain[OF pl] b p' n(2) mem nd show ?thesis by simp
qed

text \<open>
  C2. Suppose the listing succeeds and some listed file \<open>p\<close> is accepted (it parses to a
  frame \<open>df\<close> that is not empty), no file before it in the listing fails to be read or
  parsed, and the header of \<open>df\<close> differs from the reference header \<open>h\<close>, the header of
  the first accepted file. Then \<open>combine_csv\<close> redirects with "Header mismatch detected"
  as its last message, sends no file, and leaves the file system as it was.
\<close>

theorem combine_header_mismatch:
  assumes "listdir_raises io = None"
    and "uploaded_paths fs = pre @ p # post"
    and "\<forall>q \<in> set pre. reads_ok io pd fs q"
    and "frame_at io pd fs p = Some df"
    and "reference_header io pd fs (pre @ [p]) = Some h"
    and "columns df \<noteq> h"
  shows "\<exists>fl. combine_csv io pd fs = (Redirect_index, fl @ [Header_mismatch], fs)"
proof -
  have ne: "uploaded_paths fs \<noteq> []" using assms(2) by simp
  have ref: "reference_header io pd fs pre = Some h"
  proof (cases "accepted_frames io pd fs pre")
    case Nil
    with assms(4,5) have "columns df = h"
      by (simp add: reference_header_def accepted_frames_append accepted_frames_Cons)
    with assms(6) show ?thesis by simp
  next
    case (Cons d ds)
    with assms(5) show ?thesis
      by (simp add: reference_header_def accepted_frames_append)
  qed
  from read_files_prefix[OF assms(3), of "p # post" "[]" None "[]"]
  have "\<exists>fl. read_files io pd fs (uploaded_paths fs) [] None [] = Inl (fl @ [Header_mismatch])"
  proof
    assume "\<exists>fl'. read_files io pd fs (pre @ p # post) [] None [] = Inl (fl' @ [Header_mismatch])"
    then show ?thesis by (simp add: assms(2))
  next
    assume "\<exists>fl'. read_files io pd fs (pre @ p # post) [] None [] =
        read_files io pd fs (p # post) ([] @ accepted_frames io pd fs pre)
          (case None of None \<Rightarrow> reference_header io pd fs pre | Some h \<Rightarrow> Some h) fl'"
    then obtain fl' where "read_files io pd fs (pre @ p # post) [] None [] =
        read_files io pd fs (p # post) (accepted_frames io pd fs pre) (Some h) fl'"
      by (auto simp: ref)
    with read_files_mismatch[OF assms(4,6)] show ?thesis
      by (simp add: assms(2))
  qed
  then obtain fl where "read_files io pd fs (uploaded_paths fs) [] None [] = Inl (fl @ [Header_mismatch])"
    by blast
  then show ?thesis
    by (simp add: combine_csv_unfold[OF assms(1)] ne)
qed

theorem combine_header_mismatch_witness:
  "combine_csv no_faults plain_pandas
     [(''uploads/A.csv'', ''a,b\<newline>1,2\<newline>''), (''uploads/B.csv'', ''a,c\<newline>3,4\<newline>'')] =
   (Redirect_index, [Header_mismatch],
     [(''uploads/A.csv'', ''a,b\<newline>1,2\<newline>''), (''uploads/B.csv'', ''a,c\<newline>3,4\<newline>'')])"
proof -
  let ?fs = "[(''uploads/A.csv'', ''a,b\<newline>1,2\<newline>''), (''uploads/B.csv'', ''a,c\<newline>3,4\<newline>'')]"
  let ?df = "\<lparr>columns = [''a'', ''c''], rows = [[Str ''3'', Str ''4'']]\<rparr>"
  have l: "listdir_raises no_faults = None" by (simp add: no_faults_def)
  have up: "uploaded_paths ?fs = [''uploads/A.csv''] @ ''uploads/B.csv'' # []" by code_simp
  have ok: "\<forall>q \<in> set [''uploads/A.csv'']. reads_ok no_faults plain_pandas ?fs q" by code_simp
  have fa: "frame_at no_faults plain_pandas ?fs ''uploads/B.csv'' = Some ?df" by code_simp
  have ref: "reference_header no_faults plain_pandas ?fs ([''uploads/A.csv''] @ [''uploads/B.csv''])
               = Some [''a'', ''b'']" by code_simp
  have neq: "columns ?df \<noteq> [''a'', ''b'']" by simp
  from combine_header_mismatch[OF l up ok fa ref neq] obtain fl where
    fl: "combine_csv no_faults plain_pandas ?fs = (Redirect_index, fl @ [Header_mismatch], ?fs)"
    by blast
  have "combine_csv no_faults plain_pandas ?fs = (Redirect_index, [Header_mismatch], ?fs)"
    by code_simp
  with fl show ?thesis by simp
qed

text \<open>
  C4. Suppose the listing succeeds and the loop reaches a listed file \<open>p\<close> (every file
  before it is read and parsed, and the accepted ones among them share one header), and
  \<open>read_csv\<close> raises \<open>e\<close> on the bytes of \<open>p\<close>. Then \<open>combine_csv\<close> redirects with
  "Error reading \<open>name\<close>: \<open>e\<close>" as its last message, where \<open>name\<close> is the name under
  which \<open>p\<close> is listed; it sends no file and leaves the file system as it was.
\<close>

theorem combine_parse_error:
  assumes "listdir_raises io = None"
    and "uploaded_paths fs = pre @ p # post"
    and "\<forall>q \<in> set pre. reads_ok io pd fs q"
    and "\<forall>df \<in> set (accepted_frames io pd fs pre). columns df = h"
    and "read_bytes io fs p = Inr b" and "b \<noteq> []"
    and "read_csv pd csv_options b = Inl e"
  shows "entry_name p = Some (basename p) \<and>
         (\<exists>fl. combine_csv io pd fs = (Redirect_index, fl @ [Error_reading (basename p) e], fs))"
proof -
  have ne: "uploaded_paths fs \<noteq> []" using assms(2) by simp
  have "p \<in> set (uploaded_paths fs)" using assms(2) by simp
  from uploaded_paths_D[OF this] have n: "entry_name p = Some (basename p)" by simp
  from read_files_all_ok[OF assms(3,4), of None "p # post" "[]" "[]"]
  obtain fl' hd' where "read_files io pd fs (pre @ p # post) [] None [] =
      read_files io pd fs (p # post) (accepted_frames io pd fs pre) hd' fl'"
    by auto
  with read_files_parse_error[OF assms(5,6,7)]
  have "read_files io pd fs (uploaded_paths fs) [] None [] =
          Inl (fl' @ [Error_reading (basename p) e])"
    by (simp add: assms(2))
  with n show ?thesis
    by (simp add: combine_csv_unfold[OF assms(1)] ne)
qed

theorem combine_parse_error_witness:
  "read_csv plain_pandas csv_options ''\<newline>'' = Inl ''No columns to parse from file'' \<and>
   combine_csv no_faults plain_pandas
     [(''uploads/A.csv'', ''a,b\<newline>1,2\<newline>''), (''uploads/bad.csv'', ''\<newline>'')] =
   (Redirect_index, [Error_reading ''bad.csv'' ''No columns to parse from file''],
     [(''uploads/A.csv'', ''a,b\<newline>1,2\<newline>''), (''uploads/bad.csv'', ''\<newline>'')])"
proof -
  let ?fs = "[(''uploads/A.csv'', ''a,b\<newline>1,2\<newline>''), (''uploads/bad.csv'', ''\<newline>'')]"
  have l: "listdir_raises no_faults = None" by (simp add: no_faults_def)
  have up: "uploaded_paths ?fs = [''uploads/A.csv''] @ ''uploads/bad.csv'' # []" by code_simp
  have ok: "\<forall>q \<in> set [''uploads/A.csv'']. reads_ok no_faults plain_pandas ?fs q" by code_simp
  have h: "\<forall>df \<in> set (accepted_frames no_faults plain_pandas ?fs [''uploads/A.csv'']).
             columns df = [''a'', ''b'']" by code_simp
  have rb: "read_bytes no_faults ?fs ''uploads/bad.csv'' = Inr ''\<newline>''" by code_simp
  have ne: "''\<newline>'' \<noteq> []" by simp
  have pe: "read_csv plain_pandas csv_options ''\<newline>'' = Inl ''No columns to parse from file''"
    by code_simp
  have bn: "basename ''uploads/bad.csv'' = ''bad.csv''" by code_simp
  from combine_parse_error[OF l up ok h rb ne pe] obtain fl where
    fl: "combine_csv no_faults plain_pandas ?fs =
           (Redirect_index, fl @ [Error_reading ''bad.csv'' ''No columns to parse from file''], ?fs)"
    unfolding bn by blast
  have "combine_csv no_faults plain_pandas ?fs =
          (Redirect_index, [Error_reading ''bad.csv'' ''No columns to parse from file''], ?fs)"
    by code_simp
  with fl pe show ?thesis by simp
qed

subsection \<open>Combining: the clean-up and the cells\<close>

lemma read_files_cong_read_bytes:
  assumes "\<forall>p \<in> set ps. read_bytes io fs p = read_bytes io' fs' p"
  shows "read_files io pd fs ps dfs headers fl = read_files io' pd fs' ps dfs headers fl"
  using assms
proof (induction ps arbitrary: dfs headers fl)
  case Nil
  show ?case by simp
next
  case (Cons p ps)
  then have b: "read_bytes io fs p = read_bytes io' fs' p"
    and r: "\<And>dfs headers fl. read_files io pd fs ps dfs headers fl =
              read_files io' pd fs' ps dfs headers fl"
    by simp_all
  show ?case
    unfolding read_files.simps(2) b r ..
qed

lemma read_bytes_remove_raises [simp]:
  "read_bytes (io\<lparr>remove_raises := r\<rparr>) fs p = read_bytes io fs p"
  by (simp add: read_bytes_def)

lemma read_files_remove_raises:
  "read_files (io\<lparr>remove_raises := r\<rparr>) pd fs ps dfs headers fl =
   read_files io pd fs ps dfs headers fl"
  by (rule read_files_cong_read_bytes) simp

lemma combine_csv_remove_raises:
  "fst (combine_csv (io\<lparr>remove_raises := r\<rparr>) pd fs) = fst (combine_csv io pd fs)"
  by (simp add: combine_csv_def os_listdir_def Let_def read_files_remove_raises
      split: option.splits sum.splits prod.splits)

lemma os_remove_keys:
  assumes "os_remove io fs p = Inr fs'"
  shows "fs' = filter (\<lambda>kv. fst kv \<noteq> p) fs"
  using assms by (auto simp: os_remove_def split: option.splits if_splits)

lemma delete_files_keys: "fst ` set (delete_files io fs ps) \<subseteq> fst ` set fs"
proof (induction ps arbitrary: fs)
  case Nil
  show ?case by simp
next
  case (Cons q ps)
  show ?case
  proof (cases "os_remove io fs q")
    case (Inl e)
    with Cons.IH[of fs] show ?thesis by simp
  next
    case (Inr fs')
    from os_remove_keys[OF Inr] have "fst ` set fs' \<subseteq> fst ` set fs" by auto
    with Cons.IH[of fs'] Inr show ?thesis by auto
  qed
qed

lemma delete_files_removes:
  assumes "p \<in> set ps" "remove_raises io p = None" "\<not> is_upload_dir p"
  shows "p \<notin> fst ` set (delete_files io fs ps)"
  using assms(1)
proof (induction ps arbitrary: fs)
  case Nil
  then show ?case by simp
next
  case (Cons q ps)
  show ?case
  proof (cases "p = q")
    case True
    show ?thesis
    proof (cases "os_remove io fs q")
      case (Inl e)
      with True assms(2,3) have "p \<notin> fst ` set fs"
        by (auto simp: os_remove_def split: if_splits)
      with delete_files_keys[of io fs ps] Inl show ?thesis by auto
    next
      case (Inr fs')
      from os_remove_keys[OF Inr] True have "p \<notin> fst ` set fs'" by auto
      with delete_files_keys[of io fs' ps] Inr show ?thesis by auto
    qed
  next
    case False
    with Cons.prems have "p \<in> set ps" by simp
    from Cons.IH[OF this] show ?thesis
      by (cases "os_remove io fs q") simp_all
  qed
qed

text \<open>
  C3. When \<open>combine_csv\<close> sends the combined file, every file of the listing, the skipped
  ones included, is a file of the folder on which \<open>os.remove\<close> has been called: it is gone
  afterwards unless its removal raised. Whether removals raise has no influence on the
  response: with any other behaviour \<open>r\<close> of \<open>os.remove\<close> the same file is sent.
\<close>

theorem combine_cleanup:
  assumes "combine_csv io pd fs = (Send_file out, fl, fs')"
  shows "(\<forall>p \<in> set (uploaded_paths fs).
            p \<in> fst ` set fs \<and> (remove_raises io p = None \<longrightarrow> p \<notin> fst ` set fs')) \<and>
         (\<forall>r. fst (combine_csv (io\<lparr>remove_raises := r\<rparr>) pd fs) = Send_file out)"
proof -
  from combine_csv_Send_fileD[OF assms]
  have fs': "fs' = delete_files io fs (uploaded_paths fs)" by simp
  have "\<forall>p \<in> set (uploaded_paths fs).
          p \<in> fst ` set fs \<and> (remove_raises io p = None \<longrightarrow> p \<notin> fst ` set fs')"
  proof
    fix p assume p: "p \<in> set (uploaded_paths fs)"
    from uploaded_paths_D[OF p] have m: "p \<in> fst ` set fs" and d: "\<not> is_upload_dir p"
      by simp_all
    from delete_files_removes[OF p _ d, of io fs] m
    show "p \<in> fst ` set fs \<and> (remove_raises io p = None \<longrightarrow> p \<notin> fst ` set fs')"
      unfolding fs' by blast
  qed
  moreover have "\<forall>r. fst (combine_csv (io\<lparr>remove_raises := r\<rparr>) pd fs) = Send_file out"
    using assms by (simp add: combine_csv_remove_raises)
  ultimately show ?thesis by blast
qed

theorem combine_cleanup_witness:
  "combine_csv (no_faults\<lparr>remove_raises := (\<lambda>p. if p = ''uploads/A.csv'' then Some ''Permission denied'' else None)\<rparr>)
     plain_pandas
     [(''uploads/e.csv'', []), (''uploads/A.csv'', ''a,b\<newline>1,2\<newline>''), (''uploads/notes.txt'', ''x'')] =
   (Send_file ''a,b\<newline>1,2\<newline>'', [File_is_empty ''e.csv''],
    [(''uploads/A.csv'', ''a,b\<newline>1,2\<newline>''), (''uploads/notes.txt'', ''x'')]) \<and>
   fst (combine_csv no_faults plain_pandas
     [(''uploads/e.csv'', []), (''uploads/A.csv'', ''a,b\<newline>1,2\<newline>''), (''uploads/notes.txt'', ''x'')]) =
   Send_file ''a,b\<newline>1,2\<newline>'' \<and>
   ''uploads/e.csv'' \<notin> fst ` set [(''uploads/A.csv'', ''a,b\<newline>1,2\<newline>''), (''uploads/notes.txt'', ''x'')]"
proof -
  let ?io = "no_faults\<lparr>remove_raises := (\<lambda>p. if p = ''uploads/A.csv'' then Some ''Permission denied'' else None)\<rparr>"
  let ?fs = "[(''uploads/e.csv'', []), (''uploads/A.csv'', ''a,b\<newline>1,2\<newline>''), (''uploads/notes.txt'', ''x'')]"
  let ?fs' = "[(''uploads/A.csv'', ''a,b\<newline>1,2\<newline>''), (''uploads/notes.txt'', ''x'')]"
  have c: "combine_csv ?io plain_pandas ?fs =
             (Send_file ''a,b\<newline>1,2\<newline>'', [File_is_empty ''e.csv''], ?fs')"
    by code_simp
  have e: "''uploads/e.csv'' \<in> set (uploaded_paths ?fs)" by code_simp
  have n: "remove_raises ?io ''uploads/e.csv'' = None" by (simp add: no_faults_def)
  have io: "?io\<lparr>remove_raises := remove_raises no_faults\<rparr> = no_faults"
    by (simp add: no_faults_def)
  from combine_cleanup[OF c] e n
  have "''uploads/e.csv'' \<notin> fst ` set ?fs'"
    and "fst (combine_csv (?io\<lparr>remove_raises := remove_raises no_faults\<rparr>) plain_pandas ?fs) =
           Send_file ''a,b\<newline>1,2\<newline>''"
    by blast+
  with c io show ?thesis by simp
qed

lemma accepted_frames_parsed:
  assumes "d \<in> set (accepted_frames io pd fs ps)"
  shows "\<exists>p \<in> set ps. \<exists>b. read_bytes io fs p = Inr b \<and> read_csv pd csv_options b = Inr d"
proof -
  from assms obtain p where p: "p \<in> set ps" "frame_at io pd fs p = Some d"
    by (auto simp: accepted_frames_def List.map_filter_def)
  from p(2) have "\<exists>b. read_bytes io fs p = Inr b \<and> read_csv pd csv_options b = Inr d"
    by (auto simp: frame_at_def split: sum.splits if_splits)
  with p(1) show ?thesis by blast
qed

lemma combine_rows_verbatim:
  assumes "combine_csv io pd fs = (Send_file out, fl, fs')"
  shows "\<exists>df. out = to_csv pd df \<and>
              rows df = concat (map rows (accepted_frames io pd fs (uploaded_paths fs))) \<and>
              (\<forall>d \<in> set (accepted_frames io pd fs (uploaded_paths fs)).
                 \<exists>p \<in> set (uploaded_paths fs). \<exists>b. read_bytes io fs p = Inr b \<and>
                   read_csv pd \<lparr>dtype_str = True, keep_default_na = False, encoding = ''utf-8''\<rparr> b
                     = Inr d)"
proof -
  from combine_csv_Send_fileD[OF assms] obtain h where
    "out = to_csv pd \<lparr>columns = h,
             rows = concat (map rows (accepted_frames io pd fs (uploaded_paths fs)))\<rparr>"
    by blast
  moreover have "\<forall>d \<in> set (accepted_frames io pd fs (uploaded_paths fs)).
                 \<exists>p \<in> set (uploaded_paths fs). \<exists>b. read_bytes io fs p = Inr b \<and>
                   read_csv pd \<lparr>dtype_str = True, keep_default_na = False, encoding = ''utf-8''\<rparr> b
                     = Inr d"
    using accepted_frames_parsed[of _ io pd fs "uploaded_paths fs"]
    by (simp add: csv_options_def)
  ultimately show ?thesis
    by (intro exI[of _ "\<lparr>columns = h,
             rows = concat (map rows (accepted_frames io pd fs (uploaded_paths fs)))\<rparr>"]) simp
qed

subsection \<open>Combining: the order of the listing\<close>

lemma mset_map_filter: "mset (List.map_filter f xs) = image_mset (the \<circ> f) (filter_mset (\<lambda>x. f x \<noteq> None) (mset xs))"
  by (simp add: List.map_filter_def)

lemma mset_uploaded_paths:
  assumes "mset fs1 = mset fs2"
  shows "mset (uploaded_paths fs1) = mset (uploaded_paths fs2)"
proof -
  have "mset (map fst fs1) = mset (map fst fs2)"
    using assms by (metis mset_map)
  then have "mset (listed_names fs1) = mset (listed_names fs2)"
    by (simp add: listed_names_def mset_map_filter)
  then have "mset (filter allowed_file (listed_names fs1)) = mset (filter allowed_file (listed_names fs2))"
    by (metis mset_filter)
  then show ?thesis
    unfolding uploaded_paths_def by (metis mset_map)
qed

lemma mset_accepted_frames:
  assumes "mset ps1 = mset ps2"
  shows "mset (accepted_frames io pd fs ps1) = mset (accepted_frames io pd fs ps2)"
  using assms by (simp add: accepted_frames_def mset_map_filter)

lemma map_of_mset_eq:
  assumes "mset fs1 = mset fs2" "distinct (map fst fs1)"
  shows "map_of fs1 = map_of fs2"
proof -
  have "mset (map fst fs1) = mset (map fst fs2)"
    using assms(1) by (metis mset_map)
  from mset_eq_imp_distinct_iff[OF this] assms(2) have "distinct (map fst fs2)"
    by simp
  moreover from assms(1) have "set fs1 = set fs2" by (rule mset_eq_setD)
  ultimately show ?thesis
    using assms(2) by (simp add: map_of_inject_set)
qed

lemma read_bytes_map_of:
  assumes "map_of fs1 = map_of fs2"
  shows "read_bytes io fs1 p = read_bytes io fs2 p"
  unfolding read_bytes_def assms ..

lemma reads_ok_map_of:
  assumes "map_of fs1 = map_of fs2"
  shows "reads_ok io pd fs1 p = reads_ok io pd fs2 p"
  by (simp add: reads_ok_def read_bytes_map_of[OF assms])

lemma accepted_frames_map_of:
  assumes "map_of fs1 = map_of fs2"
  shows "accepted_frames io pd fs1 ps = accepted_frames io pd fs2 ps"
proof -
  have "frame_at io pd fs1 = frame_at io pd fs2"
    by (rule ext) (simp add: frame_at_def read_bytes_map_of[OF assms])
  then show ?thesis by (simp add: accepted_frames_def)
qed

lemma mset_concat_rows:
  fixes xs ys :: "dataframe list"
  assumes "mset xs = mset ys"
  shows "mset (concat (map rows xs)) = mset (concat (map rows ys))"
proof -
  have eq: "mset (concat (map rows zs)) = (\<Sum>d \<in># mset zs. mset (rows d))"
    for zs :: "dataframe list"
    by (induction zs) simp_all
  show ?thesis unfolding eq assms ..
qed

lemma combine_permuted_success:
  assumes "mset fs1 = mset fs2" "distinct (map fst fs1)"
    and "combine_csv io pd fs1 = (Send_file out1, fl, fs')"
  shows "\<exists>df1 df2. out1 = to_csv pd df1 \<and> fst (combine_csv io pd fs2) = Send_file (to_csv pd df2) \<and>
           columns df1 = columns df2 \<and> mset (rows df1) = mset (rows df2)"
proof -
  let ?a1 = "accepted_frames io pd fs1 (uploaded_paths fs1)"
  let ?a2 = "accepted_frames io pd fs2 (uploaded_paths fs2)"
  note m = map_of_mset_eq[OF assms(1,2)]
  note u = mset_uploaded_paths[OF assms(1)]
  from combine_csv_Send_fileD[OF assms(3)] obtain h where
    l: "listdir_raises io = None"
    and ok1: "\<forall>p \<in> set (uploaded_paths fs1). reads_ok io pd fs1 p"
    and ne1: "?a1 \<noteq> []"
    and h1: "\<forall>df \<in> set ?a1. columns df = h"
    and out1: "out1 = to_csv pd \<lparr>columns = h, rows = concat (map rows ?a1)\<rparr>"
    by blast
  from u have su: "set (uploaded_paths fs1) = set (uploaded_paths fs2)" by (rule mset_eq_setD)
  have a: "mset ?a1 = mset ?a2"
    using mset_accepted_frames[OF u, of io pd fs1] accepted_frames_map_of[OF m, of io pd]
    by simp
  then have sa: "set ?a1 = set ?a2" by (rule mset_eq_setD)
  have ok2: "\<forall>p \<in> set (uploaded_paths fs2). reads_ok io pd fs2 p"
    using ok1 su reads_ok_map_of[OF m, of io pd] by simp
  have h2: "\<forall>df \<in> set ?a2. columns df = h" using h1 sa by simp
  have ne2: "?a2 \<noteq> []" using ne1 sa by auto
  from combine_csv_success[OF l ok2 h2 ne2]
  have "fst (combine_csv io pd fs2) =
          Send_file (to_csv pd \<lparr>columns = h, rows = concat (map rows ?a2)\<rparr>)"
    by auto
  with out1 mset_concat_rows[OF a] show ?thesis
    by (intro exI[of _ "\<lparr>columns = h, rows = concat (map rows ?a1)\<rparr>"]
        exI[of _ "\<lparr>columns = h, rows = concat (map rows ?a2)\<rparr>"]) simp
qed

lemma combine_same_order:
  assumes "map_of fs1 = map_of fs2" "uploaded_paths fs1 = uploaded_paths fs2"
  shows "fst (combine_csv io pd fs1) = fst (combine_csv io pd fs2)"
proof (cases "listdir_raises io")
  case None
  have "read_files io pd fs1 (uploaded_paths fs2) [] None [] =
        read_files io pd fs2 (uploaded_paths fs2) [] None []"
    by (rule read_files_cong_read_bytes) (simp add: read_bytes_map_of[OF assms(1)])
  then show ?thesis
    by (simp add: combine_csv_unfold[OF None] assms(2) split: sum.splits prod.splits)
next
  case (Some e)
  then show ?thesis by (simp add: combine_csv_def os_listdir_def)
qed

text \<open>
  C9. The claim does not hold: \<open>combine_csv\<close> and \<open>index\<close> take the names in the order of
  \<open>os.listdir\<close> and never sort them. Two folders with the same two files, listed in
  different orders, give different combined files, and \<open>index\<close> shows \<open>b.csv\<close> before
  \<open>a.csv\<close> when the listing does.
\<close>

theorem combine_order_counterexample:
  "mset [(''uploads/a.csv'', ''x\<newline>1\<newline>''), (''uploads/b.csv'', ''x\<newline>2\<newline>'')] =
   mset [(''uploads/b.csv'', ''x\<newline>2\<newline>''), (''uploads/a.csv'', ''x\<newline>1\<newline>'')] \<and>
   fst (combine_csv no_faults plain_pandas
          [(''uploads/a.csv'', ''x\<newline>1\<newline>''), (''uploads/b.csv'', ''x\<newline>2\<newline>'')]) =
     Send_file ''x\<newline>1\<newline>2\<newline>'' \<and>
   fst (combine_csv no_faults plain_pandas
          [(''uploads/b.csv'', ''x\<newline>2\<newline>''), (''uploads/a.csv'', ''x\<newline>1\<newline>'')]) =
     Send_file ''x\<newline>2\<newline>1\<newline>'' \<and>
   Send_file ''x\<newline>1\<newline>2\<newline>'' \<noteq> Send_file ''x\<newline>2\<newline>1\<newline>'' \<and>
   index no_faults [(''uploads/b.csv'', ''x\<newline>2\<newline>''), (''uploads/a.csv'', ''x\<newline>1\<newline>'')] =
     (Render_index [''b.csv'', ''a.csv''], [])"
proof -
  have "mset [(''uploads/a.csv'', ''x\<newline>1\<newline>''), (''uploads/b.csv'', ''x\<newline>2\<newline>'')] =
        mset [(''uploads/b.csv'', ''x\<newline>2\<newline>''), (''uploads/a.csv'', ''x\<newline>1\<newline>'')]"
    by (simp add: add_mset_commute)
  moreover have "fst (combine_csv no_faults plain_pandas
          [(''uploads/a.csv'', ''x\<newline>1\<newline>''), (''uploads/b.csv'', ''x\<newline>2\<newline>'')]) =
     Send_file ''x\<newline>1\<newline>2\<newline>''"
    by code_simp
  moreover have "fst (combine_csv no_faults plain_pandas
          [(''uploads/b.csv'', ''x\<newline>2\<newline>''), (''uploads/a.csv'', ''x\<newline>1\<newline>'')]) =
     Send_file ''x\<newline>2\<newline>1\<newline>''"
    by code_simp
  moreover have "Send_file ''x\<newline>1\<newline>2\<newline>'' \<noteq> Send_file ''x\<newline>2\<newline>1\<newline>''"
    by simp
  moreover have "index no_faults [(''uploads/b.csv'', ''x\<newline>2\<newline>''), (''uploads/a.csv'', ''x\<newline>1\<newline>'')] =
     (Render_index [''b.csv'', ''a.csv''], [])"
    by code_simp
  ultimately show ?thesis by blast
qed

text \<open>
  C9, amended. The folder is enumerated in the order of its directory listing. Two combine
  runs over the same set of stored files (the same paths with the same contents, listed
  in any two orders) both fail or both succeed; when they succeed, the two combined frames
  have the same header and the same rows up to their order; and when the two listings
  give the files in the same order, the responses are identical.
\<close>

theorem combine_listing_order:
  assumes "mset fs1 = mset fs2" and "distinct (map fst fs1)"
  shows "(fst (combine_csv io pd fs1) = Redirect_index \<longleftrightarrow>
            fst (combine_csv io pd fs2) = Redirect_index) \<and>
         (\<forall>out1. fst (combine_csv io pd fs1) = Send_file out1 \<longrightarrow>
            (\<exists>df1 df2. out1 = to_csv pd df1 \<and>
               fst (combine_csv io pd fs2) = Send_file (to_csv pd df2) \<and>
               columns df1 = columns df2 \<and> mset (rows df1) = mset (rows df2))) \<and>
         (uploaded_paths fs1 = uploaded_paths fs2 \<longrightarrow>
            fst (combine_csv io pd fs1) = fst (combine_csv io pd fs2))"
proof -
  have d2: "distinct (map fst fs2)"
  proof -
    have "mset (map fst fs1) = mset (map fst fs2)" using assms(1) by (metis mset_map)
    from mset_eq_imp_distinct_iff[OF this] assms(2) show ?thesis by simp
  qed
  have fwd: "\<exists>df1 df2. out1 = to_csv pd df1 \<and>
               fst (combine_csv io pd fs2) = Send_file (to_csv pd df2) \<and>
               columns df1 = columns df2 \<and> mset (rows df1) = mset (rows df2)"
    if "fst (combine_csv io pd fs1) = Send_file out1" for out1
  proof -
    from that obtain fl fs' where "combine_csv io pd fs1 = (Send_file out1, fl, fs')"
      by (cases "combine_csv io pd fs1") auto
    from combine_permuted_success[OF assms this] show ?thesis .
  qed
  have bwd: "\<exists>out1. fst (combine_csv io pd fs1) = Send_file out1"
    if "fst (combine_csv io pd fs2) = Send_file out2" for out2
  proof -
    from that obtain fl fs' where "combine_csv io pd fs2 = (Send_file out2, fl, fs')"
      by (cases "combine_csv io pd fs2") auto
    from combine_permuted_success[OF assms(1)[symmetric] d2 this] show ?thesis by blast
  qed
  have r: "fst (combine_csv io pd fs1) = Redirect_index \<longleftrightarrow>
           fst (combine_csv io pd fs2) = Redirect_index"
    using combine_csv_response[of io pd fs1] combine_csv_response[of io pd fs2] fwd bwd
    by (metis response.distinct(1))
  have s: "uploaded_paths fs1 = uploaded_paths fs2 \<longrightarrow>
            fst (combine_csv io pd fs1) = fst (combine_csv io pd fs2)"
    using combine_same_order[OF map_of_mset_eq[OF assms]] by blast
  from r fwd s show ?thesis by blast
qed

theorem combine_listing_order_witness:
  "\<exists>df1 df2. ''x\<newline>1\<newline>2\<newline>'' = to_csv plain_pandas df1 \<and>
     fst (combine_csv no_faults plain_pandas
            [(''uploads/b.csv'', ''x\<newline>2\<newline>''), (''uploads/a.csv'', ''x\<newline>1\<newline>'')]) =
       Send_file (to_csv plain_pandas df2) \<and>
     columns df1 = columns df2 \<and> mset (rows df1) = mset (rows df2)"
proof -
  let ?fs1 = "[(''uploads/a.csv'', ''x\<newline>1\<newline>''), (''uploads/b.csv'', ''x\<newline>2\<newline>'')]"
  let ?fs2 = "[(''uploads/b.csv'', ''x\<newline>2\<newline>''), (''uploads/a.csv'', ''x\<newline>1\<newline>'')]"
  have m: "mset ?fs1 = mset ?fs2" by (simp add: add_mset_commute)
  have d: "distinct (map fst ?fs1)" by simp
  have c: "fst (combine_csv no_faults plain_pandas ?fs1) = Send_file ''x\<newline>1\<newline>2\<newline>''"
    by code_simp
  from combine_listing_order[OF m d, of no_faults plain_pandas] c show ?thesis
    by blast
qed

subsection \<open>Combining plain text: the fields of the files in the combined file\<close>



















subsection \<open>Removing: the sanitised name\<close>

lemma str_strip_take:
  "\<exists>m. str_strip chars s = take m (dropWhile (\<lambda>c. c \<in> set chars) s)"
proof -
  let ?t = "dropWhile (\<lambda>c. c \<in> set chars) s"
  let ?k = "length (takeWhile (\<lambda>c. c \<in> set chars) (rev ?t))"
  have "dropWhile (\<lambda>c. c \<in> set chars) (rev ?t) = drop ?k (rev ?t)"
    by (rule dropWhile_eq_drop)
  then have "str_strip chars s = rev (drop ?k (rev ?t))"
    by (simp add: str_strip_def)
  also have "\<dots> = take (length ?t - ?k) ?t"
    by (simp add: rev_drop)
  finally show ?thesis by blast
qed

lemma str_strip_subset: "set (str_strip chars s) \<subseteq> set s"
proof -
  from str_strip_take[of chars s] obtain m where
    "str_strip chars s = take m (dropWhile (\<lambda>c. c \<in> set chars) s)" by blast
  then have "set (str_strip chars s) \<subseteq> set (dropWhile (\<lambda>c. c \<in> set chars) s)"
    by (simp add: set_take_subset)
  also have "\<dots> \<subseteq> set s" by (auto dest: set_dropWhileD)
  finally show ?thesis .
qed

lemma str_strip_hd:
  assumes "str_strip chars s = c # cs"
  shows "c \<notin> set chars"
proof -
  let ?t = "dropWhile (\<lambda>c. c \<in> set chars) s"
  from str_strip_take[of chars s] obtain m where m: "str_strip chars s = take m ?t" by blast
  with assms have t: "?t \<noteq> []" and c: "c = hd ?t"
    by (cases ?t; cases m; simp)+
  from hd_dropWhile[OF t] c show ?thesis by simp
qed

lemma secure_filename_safe: "\<forall>c \<in> set (secure_filename nfkd filename). safe_char c"
proof -
  have "set (secure_filename nfkd filename) \<subseteq>
          set (filter safe_char (str_join ''_'' (split_ws []
            (map (\<lambda>c. if c = CHR ''/'' then CHR '' '' else c)
               (filter (\<lambda>c. (of_char c :: nat) < 128) (nfkd filename))))))"
    unfolding secure_filename_def Let_def by (rule str_strip_subset)
  then show ?thesis by auto
qed

lemma not_safe_char_slash: "\<not> safe_char (CHR ''/'')"
  by (simp add: safe_char_def)

lemma secure_filename_no_slash: "CHR ''/'' \<notin> set (secure_filename nfkd filename)"
  using secure_filename_safe[of nfkd filename] not_safe_char_slash by blast

lemma secure_filename_no_dots:
  "secure_filename nfkd filename \<noteq> ''.'' \<and> secure_filename nfkd filename \<noteq> ''..''"
proof -
  have "c \<notin> set ''._''" if "secure_filename nfkd filename = c # cs" for c cs
    using that unfolding secure_filename_def Let_def by (rule str_strip_hd)
  then show ?thesis by fastforce
qed

lemma secure_filename_plain:
  "secure_filename nfkd filename = [] \<or> plain_name (secure_filename nfkd filename)"
  using secure_filename_no_slash[of nfkd filename] secure_filename_no_dots[of nfkd filename]
  by (simp add: plain_name_def)

lemma secure_filename_join:
  "os_path_join UPLOAD_FOLDER (secure_filename nfkd filename) =
     UPLOAD_FOLDER @ ''/'' @ secure_filename nfkd filename"
proof (cases "secure_filename nfkd filename")
  case Nil
  then show ?thesis by (simp add: os_path_join_def)
next
  case (Cons c cs)
  with secure_filename_no_slash[of nfkd filename] have "c \<noteq> CHR ''/''" by auto
  with Cons show ?thesis by (simp add: os_path_join_def)
qed

lemma map_of_remove_other:
  assumes "p \<noteq> q"
  shows "map_of (filter (\<lambda>kv. fst kv \<noteq> q) fs) p = map_of fs p"
  using assms by (induction fs) auto

lemma remove_file_effect:
  "snd (snd (remove_file io nfkd fs filename)) = fs \<or>
   (secure_filename nfkd filename \<noteq> [] \<and>
    snd (snd (remove_file io nfkd fs filename)) =
      filter (\<lambda>kv. fst kv \<noteq> os_path_join UPLOAD_FOLDER (secure_filename nfkd filename)) fs)"
proof (cases "os_remove io fs (os_path_join UPLOAD_FOLDER (secure_filename nfkd filename))")
  case (Inl e)
  then show ?thesis by (simp add: remove_file_def Let_def)
next
  case (Inr fs')
  from os_remove_keys[OF Inr] have f: "fs' =
      filter (\<lambda>kv. fst kv \<noteq> os_path_join UPLOAD_FOLDER (secure_filename nfkd filename)) fs" .
  from Inr have "\<not> is_upload_dir (os_path_join UPLOAD_FOLDER (secure_filename nfkd filename))"
    by (auto simp: os_remove_def split: option.splits if_splits)
  then have "secure_filename nfkd filename \<noteq> []"
    by (auto simp: is_upload_dir_def os_path_join_def)
  with Inr f show ?thesis by (simp add: remove_file_def Let_def)
qed

text \<open>
  C10. \<open>remove_file\<close> passes the client's name through \<open>secure_filename\<close>, the function
  \<open>upload_files\<close> uses, before joining it to the folder. The sanitised name has only the
  characters \<open>A-Z a-z 0-9 _ . -\<close>, so no separator, and is neither \<open>.\<close> nor \<open>..\<close>:
  the joined path is \<open>uploads/\<close> followed by one plain component (or by nothing).
  Whatever the client sends, \<open>remove_file\<close> changes the file system at that path only;
  every path that is not an entry of the folder keeps its content. The file at that
  path is gone afterwards unless \<open>os.remove\<close> raised.
\<close>

theorem remove_file_stays_inside:
  "(\<forall>c \<in> set (secure_filename nfkd filename). safe_char c) \<and>
   CHR ''/'' \<notin> set (secure_filename nfkd filename) \<and>
   secure_filename nfkd filename \<noteq> ''.'' \<and> secure_filename nfkd filename \<noteq> ''..'' \<and>
   (\<forall>p. p \<noteq> UPLOAD_FOLDER @ ''/'' @ secure_filename nfkd filename \<longrightarrow>
        map_of (snd (snd (remove_file io nfkd fs filename))) p = map_of fs p) \<and>
   (\<forall>p. entry_name p = None \<longrightarrow>
        map_of (snd (snd (remove_file io nfkd fs filename))) p = map_of fs p) \<and>
   (secure_filename nfkd filename \<noteq> [] \<and>
    remove_raises io (UPLOAD_FOLDER @ ''/'' @ secure_filename nfkd filename) = None \<longrightarrow>
      UPLOAD_FOLDER @ ''/'' @ secure_filename nfkd filename
        \<notin> fst ` set (snd (snd (remove_file io nfkd fs filename))))"
proof -
  let ?s = "secure_filename nfkd filename"
  let ?fs' = "snd (snd (remove_file io nfkd fs filename))"
  have other: "map_of ?fs' p = map_of fs p" if "p \<noteq> UPLOAD_FOLDER @ ''/'' @ ?s" for p
    using remove_file_effect[of io nfkd fs filename] that
    by (auto simp: secure_filename_join map_of_remove_other)
  have outside: "map_of ?fs' p = map_of fs p" if "entry_name p = None" for p
  proof (cases "?s = []")
    case True
    with remove_file_effect[of io nfkd fs filename] show ?thesis by auto
  next
    case False
    with secure_filename_plain[of nfkd filename] have "plain_name ?s" by simp
    from entry_name_plain[OF this] that have "p \<noteq> UPLOAD_FOLDER @ ''/'' @ ?s" by auto
    from other[OF this] show ?thesis .
  qed
  have gone: "UPLOAD_FOLDER @ ''/'' @ ?s \<notin> fst ` set ?fs'"
    if "?s \<noteq> []" "remove_raises io (UPLOAD_FOLDER @ ''/'' @ ?s) = None"
  proof -
    from that(1) have d: "\<not> is_upload_dir (UPLOAD_FOLDER @ ''/'' @ ?s)"
      by (simp add: is_upload_dir_def)
    show ?thesis
    proof (cases "UPLOAD_FOLDER @ ''/'' @ ?s \<in> fst ` set fs")
      case True
      with that(2) d show ?thesis
        by (auto simp: remove_file_def Let_def secure_filename_join os_path_exists_def
            os_remove_def)
    next
      case False
      with d show ?thesis
        by (simp add: remove_file_def Let_def secure_filename_join os_path_exists_def)
    qed
  qed
  from secure_filename_safe secure_filename_no_slash secure_filename_no_dots other outside gone
  show ?thesis by blast
qed

theorem remove_file_stays_inside_witness:
  "secure_filename id ''../../etc/passwd.csv'' = ''etc_passwd.csv'' \<and>
   remove_file no_faults id
     [(''uploads/../../etc/passwd.csv'', ''root''), (''uploads/etc_passwd.csv'', ''a\<newline>1\<newline>'')]
     ''../../etc/passwd.csv'' =
   (Redirect_index, [Removed ''../../etc/passwd.csv''], [(''uploads/../../etc/passwd.csv'', ''root'')]) \<and>
   map_of (snd (snd (remove_file no_faults id
     [(''uploads/../../etc/passwd.csv'', ''root''), (''uploads/etc_passwd.csv'', ''a\<newline>1\<newline>'')]
     ''../../etc/passwd.csv''))) ''uploads/../../etc/passwd.csv'' = Some ''root''"
proof -
  let ?fs = "[(''uploads/../../etc/passwd.csv'', ''root''), (''uploads/etc_passwd.csv'', ''a\<newline>1\<newline>'')]"
  have s: "secure_filename id ''../../etc/passwd.csv'' = ''etc_passwd.csv''" by code_simp
  have r: "remove_file no_faults id ?fs ''../../etc/passwd.csv'' =
     (Redirect_index, [Removed ''../../etc/passwd.csv''], [(''uploads/../../etc/passwd.csv'', ''root'')])"
    by code_simp
  have e: "entry_name ''uploads/../../etc/passwd.csv'' = None" by code_simp
  have m: "map_of ?fs ''uploads/../../etc/passwd.csv'' = Some ''root''" by simp
  from remove_file_stays_inside[of id "''../../etc/passwd.csv''" no_faults ?fs] e m
  have "map_of (snd (snd (remove_file no_faults id ?fs ''../../etc/passwd.csv'')))
          ''uploads/../../etc/passwd.csv'' = Some ''root''"
    by metis
  with s r show ?thesis by blast
qed

subsection \<open>Uploading: payloads of zero bytes\<close>



















subsection \<open>Combining: files without rows\<close>

lemma read_files_skip_step:
  assumes "read_bytes io fs p = Inr b"
    and "b = [] \<or> (\<exists>df. read_csv pd csv_options b = Inr df \<and> rows df = [])"
  shows "read_files io pd fs (p # rest) dfs headers fl =
         read_files io pd fs rest dfs headers
           (fl @ [if b = [] then File_is_empty (basename p)
                  else File_empty_or_invalid (basename p)])"
  using assms by (auto simp: read_files.simps(2) df_empty_def)

lemma read_files_keeps_flashes:
  assumes "read_files io pd fs ps dfs headers fl = Inr (dfs', fl')"
  shows "set fl \<subseteq> set fl'"
  using assms
proof (induction ps arbitrary: dfs headers fl)
  case Nil
  then show ?case by simp
next
  case (Cons p ps)
  have ok: "reads_ok io pd fs p"
  proof (rule ccontr)
    assume "\<not> reads_ok io pd fs p"
    from read_files_error[OF this, of ps dfs headers fl] Cons.prems show False by auto
  qed
  show ?case
  proof (cases "frame_at io pd fs p")
    case None
    from read_files_skip[OF ok None, of ps dfs headers fl] Cons.prems obtain w where
      "read_files io pd fs ps dfs headers (fl @ [w]) = Inr (dfs', fl')" by auto
    from Cons.IH[OF this] show ?thesis by simp
  next
    case (Some df)
    show ?thesis
    proof (cases headers)
      case None
      with read_files_first[OF Some, of ps dfs fl] Cons.prems
      have "read_files io pd fs ps (dfs @ [df]) (Some (columns df)) fl = Inr (dfs', fl')"
        by simp
      from Cons.IH[OF this] show ?thesis .
    next
      case h: (Some h)
      have c: "columns df = h"
      proof (rule ccontr)
        assume "columns df \<noteq> h"
        from read_files_mismatch[OF Some this, of ps dfs fl] Cons.prems h show False by simp
      qed
      with read_files_match[OF Some c, of ps dfs fl] Cons.prems h
      have "read_files io pd fs ps (dfs @ [df]) (Some h) fl = Inr (dfs', fl')"
        by simp
      from Cons.IH[OF this] show ?thesis .
    qed
  qed
qed

lemma combine_skips_success:
  assumes "listdir_raises io = None"
    and "uploaded_paths fs = pre @ p # post"
    and "read_bytes io fs p = Inr b"
    and "b = [] \<or> (\<exists>df. read_csv pd csv_options b = Inr df \<and> rows df = [])"
    and "\<forall>q \<in> set (pre @ post). reads_ok io pd fs q"
    and "\<forall>df \<in> set (accepted_frames io pd fs (pre @ post)). columns df = h"
    and "accepted_frames io pd fs (pre @ post) \<noteq> []"
  shows "\<exists>fl. combine_csv io pd fs =
           (Send_file (to_csv pd \<lparr>columns = h,
                         rows = concat (map rows (accepted_frames io pd fs (pre @ post)))\<rparr>),
            fl, delete_files io fs (uploaded_paths fs)) \<and>
           (if b = [] then File_is_empty (basename p) else File_empty_or_invalid (basename p))
             \<in> set fl"
proof -
  let ?w = "if b = [] then File_is_empty (basename p) else File_empty_or_invalid (basename p)"
  let ?acc = "accepted_frames io pd fs (pre @ post)"
  let ?h1 = "if accepted_frames io pd fs pre = [] then None else Some h"
  have ne: "uploaded_paths fs \<noteq> []" using assms(2) by simp
  have okpre: "\<forall>q \<in> set pre. reads_ok io pd fs q"
    and okpost: "\<forall>q \<in> set post. reads_ok io pd fs q"
    using assms(5) by simp_all
  have hpre: "\<forall>df \<in> set (accepted_frames io pd fs pre). columns df = h"
    and hpost: "\<forall>df \<in> set (accepted_frames io pd fs post). columns df = h"
    using assms(6) by (simp_all add: accepted_frames_append)
  from read_files_all_ok[OF okpre hpre, of None "p # post" "[]" "[]"] obtain fl1 where
    a: "read_files io pd fs (pre @ p # post) [] None [] =
        read_files io pd fs (p # post) (accepted_frames io pd fs pre) ?h1 fl1"
    by auto
  note b = read_files_skip_step[OF assms(3,4), of post "accepted_frames io pd fs pre" ?h1 fl1]
  have "?h1 = None \<or> ?h1 = Some h" by simp
  from read_files_all_ok[OF okpost hpost this, of "[]" "accepted_frames io pd fs pre" "fl1 @ [?w]"]
  obtain fl2 where
    c: "read_files io pd fs post (accepted_frames io pd fs pre) ?h1 (fl1 @ [?w]) = Inr (?acc, fl2)"
    by (auto simp: accepted_frames_append)
  from read_files_keeps_flashes[OF c] have w: "?w \<in> set fl2" by simp
  from a b c have r: "read_files io pd fs (uploaded_paths fs) [] None [] = Inr (?acc, fl2)"
    by (simp add: assms(2))
  have "combine_csv io pd fs =
           (Send_file (to_csv pd \<lparr>columns = h, rows = concat (map rows ?acc)\<rparr>),
            fl2, delete_files io fs (uploaded_paths fs))"
    by (simp add: combine_csv_unfold[OF assms(1)] ne r assms(7)
        pd_concat_same_columns[OF assms(7,6)])
  with w show ?thesis by blast
qed

lemma uploaded_paths_filter:
  "uploaded_paths fs =
     filter (\<lambda>k. case entry_name k of None \<Rightarrow> False | Some n \<Rightarrow> allowed_file n) (map fst fs)"
proof (induction fs)
  case Nil
  show ?case by (simp add: uploaded_paths_def listed_names_def List.map_filter_def)
next
  case (Cons kv fs)
  have step: "uploaded_paths (kv # fs) =
      (case entry_name (fst kv) of None \<Rightarrow> []
       | Some n \<Rightarrow> if allowed_file n then [os_path_join UPLOAD_FOLDER n] else [])
      @ uploaded_paths fs"
    by (simp add: uploaded_paths_def listed_names_def List.map_filter_def split: option.splits)
  show ?case
  proof (cases "entry_name (fst kv)")
    case None
    with step Cons show ?thesis by simp
  next
    case (Some n)
    from entry_name_SomeD[OF Some] have "os_path_join UPLOAD_FOLDER n = fst kv"
      by (simp add: join_plain)
    with step Cons Some show ?thesis by simp
  qed
qed

lemma uploaded_paths_remove:
  "uploaded_paths (filter (\<lambda>kv. fst kv \<noteq> p) fs) = filter (\<lambda>q. q \<noteq> p) (uploaded_paths fs)"
  unfolding uploaded_paths_filter by (induction fs) auto

lemma read_bytes_remove_other:
  assumes "q \<noteq> p"
  shows "read_bytes io (filter (\<lambda>kv. fst kv \<noteq> p) fs) q = read_bytes io fs q"
  unfolding read_bytes_def map_of_remove_other[OF assms] ..

lemma read_files_without:
  assumes "reads_ok io pd fs p" "frame_at io pd fs p = None"
  shows "outcome_of (read_files io pd fs ps dfs headers fl) =
         outcome_of (read_files io pd fs (filter (\<lambda>q. q \<noteq> p) ps) dfs headers fl')"
proof (induction ps arbitrary: dfs headers fl fl')
  case Nil
  show ?case by (simp add: outcome_of_def)
next
  case (Cons q ps)
  show ?case
  proof (cases "q = p")
    case True
    from read_files_skip[OF assms, of ps dfs headers fl] obtain w where
      "read_files io pd fs (p # ps) dfs headers fl = read_files io pd fs ps dfs headers (fl @ [w])"
      by blast
    with Cons[of dfs headers "fl @ [w]" fl'] True show ?thesis by simp
  next
    case False
    show ?thesis
    proof (cases "reads_ok io pd fs q")
      case no: False
      from read_files_error[OF no, of ps dfs headers fl]
        read_files_error[OF no, of "filter (\<lambda>q. q \<noteq> p) ps" dfs headers fl'] False
      show ?thesis by (auto simp: outcome_of_def)
    next
      case ok: True
      show ?thesis
      proof (cases "frame_at io pd fs q")
        case None
        from read_files_skip[OF ok None, of ps dfs headers fl]
          read_files_skip[OF ok None, of "filter (\<lambda>q. q \<noteq> p) ps" dfs headers fl']
        obtain w w' where
          "read_files io pd fs (q # ps) dfs headers fl =
             read_files io pd fs ps dfs headers (fl @ [w])"
          "read_files io pd fs (q # filter (\<lambda>q. q \<noteq> p) ps) dfs headers fl' =
             read_files io pd fs (filter (\<lambda>q. q \<noteq> p) ps) dfs headers (fl' @ [w'])"
          by blast
        with Cons[of dfs headers "fl @ [w]" "fl' @ [w']"] False show ?thesis by simp
      next
        case (Some df)
        show ?thesis
        proof (cases headers)
          case None
          from read_files_first[OF Some, of ps dfs fl]
            read_files_first[OF Some, of "filter (\<lambda>q. q \<noteq> p) ps" dfs fl']
            Cons[of "dfs @ [df]" "Some (columns df)" fl fl'] None False
          show ?thesis by simp
        next
          case h: (Some h)
          show ?thesis
          proof (cases "columns df = h")
            case True
            from read_files_match[OF Some True, of ps dfs fl]
              read_files_match[OF Some True, of "filter (\<lambda>q. q \<noteq> p) ps" dfs fl']
              Cons[of "dfs @ [df]" "Some h" fl fl'] h False
            show ?thesis by simp
          next
            case ne: False
            from read_files_mismatch[OF Some ne, of ps dfs fl]
              read_files_mismatch[OF Some ne, of "filter (\<lambda>q. q \<noteq> p) ps" dfs fl'] h False
            show ?thesis by (simp add: outcome_of_def)
          qed
        qed
      qed
    qed
  qed
qed

lemma combine_csv_response_outcome:
  assumes "listdir_raises io = None"
  shows "fst (combine_csv io pd fs) =
     (case outcome_of (read_files io pd fs (uploaded_paths fs) [] None []) of
        Inl u \<Rightarrow> Redirect_index
      | Inr dfs \<Rightarrow>
          (case pd_concat dfs of Inl e \<Rightarrow> Redirect_index
           | Inr combined_df \<Rightarrow> Send_file (to_csv pd combined_df)))"
proof (cases "uploaded_paths fs = []")
  case True
  then show ?thesis
    by (simp add: combine_csv_unfold[OF assms] outcome_of_def pd_concat_def)
next
  case False
  then show ?thesis
    by (cases "read_files io pd fs (uploaded_paths fs) [] None []")
       (auto simp: combine_csv_unfold[OF assms] outcome_of_def pd_concat_def
          split: sum.splits list.splits)
qed

lemma combine_csv_without_skipped:
  assumes "read_bytes io fs p = Inr b"
    and "b = [] \<or> (\<exists>df. read_csv pd csv_options b = Inr df \<and> rows df = [])"
  shows "fst (combine_csv io pd fs) = fst (combine_csv io pd (filter (\<lambda>kv. fst kv \<noteq> p) fs))"
proof (cases "listdir_raises io")
  case (Some e)
  then show ?thesis by (simp add: combine_csv_def os_listdir_def)
next
  case None
  let ?fs' = "filter (\<lambda>kv. fst kv \<noteq> p) fs"
  let ?ps' = "filter (\<lambda>q. q \<noteq> p) (uploaded_paths fs)"
  from assms have ok: "reads_ok io pd fs p" and fr: "frame_at io pd fs p = None"
    by (auto simp: reads_ok_def frame_at_def df_empty_def)
  have "read_files io pd ?fs' ?ps' [] None [] = read_files io pd fs ?ps' [] None []"
    by (rule read_files_cong_read_bytes) (simp add: read_bytes_remove_other)
  with read_files_without[OF ok fr, of "uploaded_paths fs" "[]" None "[]" "[]"]
  have "outcome_of (read_files io pd fs (uploaded_paths fs) [] None []) =
        outcome_of (read_files io pd ?fs' (uploaded_paths ?fs') [] None [])"
    by (simp add: uploaded_paths_remove)
  then show ?thesis
    by (simp add: combine_csv_response_outcome[OF None])
qed

text \<open>
  C6. Let \<open>p\<close> be a listed file that can be read and whose bytes are empty, or whose bytes
  parse to a frame without data rows. Then \<open>p\<close> has no part in the response of
  \<open>combine_csv\<close>: the response is the one the folder without \<open>p\<close> gets, so \<open>p\<close> adds
  no rows and ends nothing. In particular, if the other listed files are read and parsed,
  their accepted frames share the header \<open>h\<close> and there is at least one of them, then
  \<open>combine_csv\<close> sends the combined file, whose rows are the rows of the other files
  only, those listed after \<open>p\<close> included, and it has flashed a warning that names \<open>p\<close>.
\<close>

theorem combine_skips_empty_file:
  assumes "listdir_raises io = None"
    and "uploaded_paths fs = pre @ p # post"
    and "read_bytes io fs p = Inr b"
    and "b = [] \<or> (\<exists>df. read_csv pd csv_options b = Inr df \<and> rows df = [])"
  shows "fst (combine_csv io pd fs) = fst (combine_csv io pd (filter (\<lambda>kv. fst kv \<noteq> p) fs)) \<and>
         ((\<forall>q \<in> set (pre @ post). reads_ok io pd fs q) \<and>
          (\<forall>df \<in> set (accepted_frames io pd fs (pre @ post)). columns df = h) \<and>
          accepted_frames io pd fs (pre @ post) \<noteq> [] \<longrightarrow>
          (\<exists>fl. combine_csv io pd fs =
             (Send_file (to_csv pd \<lparr>columns = h,
                           rows = concat (map rows (accepted_frames io pd fs (pre @ post)))\<rparr>),
              fl, delete_files io fs (uploaded_paths fs)) \<and>
             (if b = [] then File_is_empty (basename p) else File_empty_or_invalid (basename p))
               \<in> set fl))"
  using combine_csv_without_skipped[OF assms(3,4)] combine_skips_success[OF assms]
  by blast

theorem combine_skips_empty_file_witness:
  "combine_csv no_faults plain_pandas
     [(''uploads/A.csv'', ''a,b\<newline>1,2\<newline>''), (''uploads/e.csv'', []),
      (''uploads/h.csv'', ''c,d\<newline>''), (''uploads/B.csv'', ''a,b\<newline>3,4\<newline>'')] =
   (Send_file ''a,b\<newline>1,2\<newline>3,4\<newline>'',
    [File_is_empty ''e.csv'', File_empty_or_invalid ''h.csv''], [])"
proof -
  let ?fs = "[(''uploads/A.csv'', ''a,b\<newline>1,2\<newline>''), (''uploads/e.csv'', []),
      (''uploads/h.csv'', ''c,d\<newline>''), (''uploads/B.csv'', ''a,b\<newline>3,4\<newline>'')]"
  let ?pre = "[''uploads/A.csv'', ''uploads/e.csv'']"
  let ?post = "[''uploads/B.csv'']"
  have l: "listdir_raises no_faults = None" by (simp add: no_faults_def)
  have up: "uploaded_paths ?fs = ?pre @ ''uploads/h.csv'' # ?post" by code_simp
  have rb: "read_bytes no_faults ?fs ''uploads/h.csv'' = Inr ''c,d\<newline>''" by code_simp
  have hd: "''c,d\<newline>'' = [] \<or>
            (\<exists>df. read_csv plain_pandas csv_options ''c,d\<newline>'' = Inr df \<and> rows df = [])"
  proof -
    have "read_csv plain_pandas csv_options ''c,d\<newline>'' = Inr \<lparr>columns = [''c'', ''d''], rows = []\<rparr>"
      by code_simp
    then show ?thesis by simp
  qed
  have ok: "\<forall>q \<in> set (?pre @ ?post). reads_ok no_faults plain_pandas ?fs q" by code_simp
  have acc: "accepted_frames no_faults plain_pandas ?fs (?pre @ ?post) =
     [\<lparr>columns = [''a'', ''b''], rows = [[Str ''1'', Str ''2'']]\<rparr>,
      \<lparr>columns = [''a'', ''b''], rows = [[Str ''3'', Str ''4'']]\<rparr>]"
    by code_simp
  have h: "\<forall>df \<in> set (accepted_frames no_faults plain_pandas ?fs (?pre @ ?post)).
             columns df = [''a'', ''b'']"
    unfolding acc by simp
  have ne: "accepted_frames no_faults plain_pandas ?fs (?pre @ ?post) \<noteq> []"
    unfolding acc by simp
  from combine_skips_empty_file[OF l up rb hd, of "[''a'', ''b'']"] ok h ne obtain fl where
    "combine_csv no_faults plain_pandas ?fs =
       (Send_file (to_csv plain_pandas \<lparr>columns = [''a'', ''b''],
          rows = concat (map rows (accepted_frames no_faults plain_pandas ?fs (?pre @ ?post)))\<rparr>),
        fl, delete_files no_faults ?fs (uploaded_paths ?fs))"
    by blast
  then have r: "fst (combine_csv no_faults plain_pandas ?fs) =
     Send_file (to_csv plain_pandas \<lparr>columns = [''a'', ''b''],
          rows = [[Str ''1'', Str ''2''], [Str ''3'', Str ''4'']]\<rparr>)"
    unfolding acc by simp
  have c: "combine_csv no_faults plain_pandas ?fs =
      (Send_file ''a,b\<newline>1,2\<newline>3,4\<newline>'',
       [File_is_empty ''e.csv'', File_empty_or_invalid ''h.csv''], [])"
    by code_simp
  from r c show ?thesis by simp
qed

end
